theory Spec2Isabelle
  imports Main
begin

section \<open>Text primitives of the script\<close>

text \<open>
  The script \<^verbatim>\<open>batch-add-getters.py\<close> works on Python \<^verbatim>\<open>str\<close> values. A text is
  modelled as a \<^typ>\<open>string\<close>; the character classes below are those of Python on the
  ASCII range (code points below 128), which is the range the development covers.
\<close>

definition is_space :: "char \<Rightarrow> bool" where
  \<comment> \<open>\<^verbatim>\<open>\s\<close> and \<^verbatim>\<open>str.strip()\<close>: tab, newline, VT, FF, CR, 0x1C..0x1F, space\<close>
  "is_space c = (c \<in> set [CHR 0x09, CHR ''\<newline>'', CHR 0x0B, CHR 0x0C, CHR 0x0D,
                             CHR 0x1C, CHR 0x1D, CHR 0x1E, CHR 0x1F, CHR '' ''])"

definition is_word :: "char \<Rightarrow> bool" where
  \<comment> \<open>\<^verbatim>\<open>\w\<close>: letters, digits and the underscore\<close>
  "is_word c = (c \<in> set ''0123456789ABCDEFGHIJKLMNOPQRSTUVWXYZ_abcdefghijklmnopqrstuvwxyz'')"

definition upper :: "char \<Rightarrow> char" where
  \<comment> \<open>\<^verbatim>\<open>str.upper()\<close> on one character\<close>
  "upper c = (case map_of (zip ''abcdefghijklmnopqrstuvwxyz'' ''ABCDEFGHIJKLMNOPQRSTUVWXYZ'') c of
                None \<Rightarrow> c | Some u \<Rightarrow> u)"

fun startswith :: "string \<Rightarrow> string \<Rightarrow> bool" where
  \<comment> \<open>\<^verbatim>\<open>s.startswith(p)\<close>\<close>
  "startswith s [] = True"
| "startswith [] (p # ps) = False"
| "startswith (c # cs) (p # ps) = (c = p \<and> startswith cs ps)"

fun contains :: "string \<Rightarrow> string \<Rightarrow> bool" where
  \<comment> \<open>\<^verbatim>\<open>sub in s\<close>\<close>
  "contains [] sub = (sub = [])"
| "contains (c # cs) sub = (startswith (c # cs) sub \<or> contains cs sub)"

fun split :: "char \<Rightarrow> string \<Rightarrow> string list" where
  \<comment> \<open>\<^verbatim>\<open>s.split(sep)\<close> for a separator of one character\<close>
  "split sep [] = [[]]"
| "split sep (c # cs) =
     (if c = sep then [] # split sep cs
      else (case split sep cs of [] \<Rightarrow> [[c]] | l # ls \<Rightarrow> (c # l) # ls))"

fun join :: "string \<Rightarrow> string list \<Rightarrow> string" where
  \<comment> \<open>\<^verbatim>\<open>sep.join(xs)\<close>\<close>
  "join sep [] = []"
| "join sep [x] = x"
| "join sep (x # y # ys) = x @ sep @ join sep (y # ys)"

definition strip :: "string \<Rightarrow> string" where
  \<comment> \<open>\<^verbatim>\<open>s.strip()\<close>\<close>
  "strip s = rev (dropWhile is_space (rev (dropWhile is_space s)))"

definition insert_at :: "nat \<Rightarrow> 'a \<Rightarrow> 'a list \<Rightarrow> 'a list" where
  \<comment> \<open>\<^verbatim>\<open>xs.insert(i, x)\<close> for an index \<open>0 \<le> i\<close>\<close>
  "insert_at i x xs = take i xs @ [x] @ drop i xs"

section \<open>The regular expression engine, as far as the script uses it\<close>

text \<open>
  Python's \<^verbatim>\<open>re\<close> is a backtracking matcher: alternatives are tried in a fixed order
  (a greedy repetition tries the longest run first, an optional group tries its body
  first) and the first complete match wins. \<open>ms r s g\<close> lists every way in which \<open>r\<close>
  matches a prefix of \<open>s\<close>, in exactly that order, as triples of the text consumed, the
  text left and the groups captured so far; the match the engine reports is the head
  of the list.
\<close>

datatype cclass = Space | NonSpace | Word | NotChar char

fun in_class :: "cclass \<Rightarrow> char \<Rightarrow> bool" where
  "in_class Space c = is_space c"
| "in_class NonSpace c = (\<not> is_space c)"
| "in_class Word c = is_word c"
| "in_class (NotChar x) c = (c \<noteq> x)"

datatype regex =
    Lit string            \<comment> \<open>literal text\<close>
  | Star cclass           \<comment> \<open>\<^verbatim>\<open>c*\<close>, greedy\<close>
  | Plus cclass           \<comment> \<open>\<^verbatim>\<open>c+\<close>, greedy\<close>
  | Opt regex             \<comment> \<open>\<^verbatim>\<open>(?:r)?\<close>, greedy\<close>
  | Group nat regex       \<comment> \<open>capturing group number \<open>n\<close>\<close>
  | Seq regex regex

type_synonym groups = "nat \<rightharpoonup> string"

fun lit :: "string \<Rightarrow> string \<Rightarrow> string option" where
  "lit [] s = Some s"
| "lit (p # ps) [] = None"
| "lit (p # ps) (c # cs) = (if p = c then lit ps cs else None)"

fun greedy :: "(char \<Rightarrow> bool) \<Rightarrow> string \<Rightarrow> (string \<times> string) list" where
  "greedy P [] = [([], [])]"
| "greedy P (c # cs) =
     (if P c then map (\<lambda>(a, r). (c # a, r)) (greedy P cs) @ [([], c # cs)]
      else [([], c # cs)])"

fun ms :: "regex \<Rightarrow> string \<Rightarrow> groups \<Rightarrow> (string \<times> string \<times> groups) list" where
  "ms (Lit p) s g = (case lit p s of None \<Rightarrow> [] | Some r \<Rightarrow> [(p, r, g)])"
| "ms (Star c) s g = map (\<lambda>(a, r). (a, r, g)) (greedy (in_class c) s)"
| "ms (Plus c) s g = map (\<lambda>(a, r). (a, r, g)) (filter (\<lambda>(a, r). a \<noteq> []) (greedy (in_class c) s))"
| "ms (Opt r) s g = ms r s g @ [([], s, g)]"
| "ms (Group n r) s g = map (\<lambda>(a, t, g'). (a, t, g'(n \<mapsto> a))) (ms r s g)"
| "ms (Seq r1 r2) s g =
     concat (map (\<lambda>(a, t, g'). map (\<lambda>(b, u, g''). (a @ b, u, g'')) (ms r2 t g')) (ms r1 s g))"

definition re_match :: "regex \<Rightarrow> string \<Rightarrow> (string \<times> string \<times> groups) option" where
  \<comment> \<open>the match at the start of \<open>s\<close>, if there is one\<close>
  "re_match r s = (case ms r s Map.empty of [] \<Rightarrow> None | m # _ \<Rightarrow> Some m)"

fun seq :: "regex list \<Rightarrow> regex" where
  "seq [] = Lit []"
| "seq [r] = r"
| "seq (r # rs) = Seq r (seq rs)"

text \<open>
  \<^verbatim>\<open>re.findall\<close> scans from left to right: where the pattern matches, the groups are
  recorded and the scan goes on behind the match; where it does not, the scan moves on by
  one character. A match that consumes nothing is outside the model: the pattern of the
  script consumes at least ten characters, so the last branch is never taken for it.
\<close>

fun findall :: "regex \<Rightarrow> string \<Rightarrow> groups list" where
  "findall r s =
     (case re_match r s of
        None \<Rightarrow> (case s of [] \<Rightarrow> [] | _ # cs \<Rightarrow> findall r cs)
      | Some (a, rest, g) \<Rightarrow>
          g # (if length rest < length s then findall r rest
               else (case s of [] \<Rightarrow> [] | _ # cs \<Rightarrow> findall r cs)))"

declare findall.simps [simp del]

definition group :: "groups \<Rightarrow> nat \<Rightarrow> string" where
  \<comment> \<open>a group that took no part in the match is reported as the empty string\<close>
  "group g n = (case g n of None \<Rightarrow> [] | Some v \<Rightarrow> v)"

section \<open>The per-file transformation\<close>

definition accessor_pattern :: regex where
  \<comment> \<open>\<^verbatim>\<open>    public\s+(\S+(?:<[^>]+>)?)\s+(\w+)\(\)\s*\{\s*\n\s*return\s+(\w+);\s*\n\s*\}\<close>\<close>
  "accessor_pattern = seq
     [Lit ''    public'', Plus Space,
      Group 1 (Seq (Plus NonSpace) (Opt (seq [Lit ''<'', Plus (NotChar CHR ''>''), Lit ''>'']))),
      Plus Space, Group 2 (Plus Word), Lit ''()'', Star Space, Lit ''{'', Star Space,
      Lit ''\<newline>'', Star Space, Lit ''return'', Plus Space, Group 3 (Plus Word), Lit '';'',
      Star Space, Lit ''\<newline>'', Star Space, Lit ''}'']"

type_synonym accessor = "string \<times> string \<times> string"
  \<comment> \<open>(return type, method name, field name)\<close>

definition find_accessors :: "string \<Rightarrow> accessor list" where
  \<comment> \<open>\<^verbatim>\<open>re.findall(accessor_pattern, content)\<close>: one tuple of the three groups per match\<close>
  "find_accessors content =
     map (\<lambda>g. (group g 1, group g 2, group g 3)) (findall accessor_pattern content)"

datatype error = IndexError | FileNotFoundError

definition upper_first :: "string \<Rightarrow> error + string" where
  \<comment> \<open>\<^verbatim>\<open>name[0].upper() + name[1:]\<close>\<close>
  "upper_first name = (case name of [] \<Rightarrow> Inl IndexError | c # cs \<Rightarrow> Inr (upper c # cs))"

definition getter_name :: "string \<Rightarrow> string \<Rightarrow> error + string" where
  "getter_name return_type method_name =
     (if return_type = ''boolean'' \<and> startswith method_name ''is''
      then upper_first method_name
      else (case upper_first method_name of Inl e \<Rightarrow> Inl e | Inr n \<Rightarrow> Inr (''get'' @ n)))"

definition getter_line :: "string \<Rightarrow> string \<Rightarrow> string \<Rightarrow> string" where
  "getter_line return_type name field_name =
     ''    public '' @ return_type @ '' '' @ name @ ''() { return '' @ field_name @ ''; }''"

definition marker :: string where
  "marker = ''// JavaBean-style getters''"

fun getter_lines :: "accessor list \<Rightarrow> error + string list" where
  \<comment> \<open>the loop over the accessors, in their order\<close>
  "getter_lines [] = Inr []"
| "getter_lines ((return_type, method_name, field_name) # rest) =
     (case getter_name return_type method_name of
        Inl e \<Rightarrow> Inl e
      | Inr name \<Rightarrow>
          (case getter_lines rest of
             Inl e \<Rightarrow> Inl e
           | Inr ls \<Rightarrow> Inr (getter_line return_type name field_name # ls)))"

definition getters :: "accessor list \<Rightarrow> error + string list" where
  "getters accessors =
     (case getter_lines accessors of
        Inl e \<Rightarrow> Inl e
      | Inr ls \<Rightarrow> Inr ((''\<newline>    '' @ marker) # ls))"

fun scan_back :: "string list \<Rightarrow> nat \<Rightarrow> nat option" where
  \<comment> \<open>the loop \<^verbatim>\<open>for i in range(n - 1, -1, -1)\<close>, with \<open>n\<close> lines still to look at\<close>
  "scan_back lines 0 = None"
| "scan_back lines (Suc i) = (if strip (lines ! i) = ''}'' then Some i else scan_back lines i)"

definition last_brace_idx :: "string list \<Rightarrow> nat option" where
  "last_brace_idx lines = scan_back lines (length lines)"

definition insert_block :: "string \<Rightarrow> string \<Rightarrow> string option" where
  \<comment> \<open>lines 39 to 57: the new content, or \<open>None\<close> when no line is a lone closing brace\<close>
  "insert_block content block =
     (let lines = split CHR ''\<newline>'' content in
      case last_brace_idx lines of
        None \<Rightarrow> None
      | Some i \<Rightarrow> Some (join ''\<newline>'' (insert_at i block lines)))"

text \<open>
  Both \<^verbatim>\<open>open\<close> calls of the script use text mode without a \<^verbatim>\<open>newline\<close> argument. Reading
  then turns every \<^verbatim>\<open>\r\n\<close> and every lone \<^verbatim>\<open>\r\<close> into \<^verbatim>\<open>\n\<close>, and writing turns every
  \<^verbatim>\<open>\n\<close> into the line separator of the platform. A file is modelled by what is on disk;
  on the ASCII range the UTF-8 encoding leaves the characters as they are.
\<close>

datatype platform = POSIX | Windows

fun linesep :: "platform \<Rightarrow> string" where
  \<comment> \<open>\<^verbatim>\<open>os.linesep\<close>\<close>
  "linesep POSIX = ''\<newline>''"
| "linesep Windows = [CHR 0x0D, CHR ''\<newline>'']"

fun universal_newlines :: "string \<Rightarrow> string" where
  \<comment> \<open>what \<^verbatim>\<open>f.read()\<close> returns for the characters on disk\<close>
  "universal_newlines [] = []"
| "universal_newlines [c] = [if c = CHR 0x0D then CHR ''\<newline>'' else c]"
| "universal_newlines (c # d # ds) =
     (if c = CHR 0x0D
      then CHR ''\<newline>'' # (if d = CHR ''\<newline>'' then universal_newlines ds
                          else universal_newlines (d # ds))
      else c # universal_newlines (d # ds))"

fun translate_newlines :: "string \<Rightarrow> string \<Rightarrow> string" where
  \<comment> \<open>what \<^verbatim>\<open>f.write(text)\<close> puts on disk\<close>
  "translate_newlines sep [] = []"
| "translate_newlines sep (c # cs) =
     (if c = CHR ''\<newline>'' then sep else [c]) @ translate_newlines sep cs"

record world =
  platform :: platform                   \<comment> \<open>the platform the script runs on\<close>
  files :: "string \<rightharpoonup> string"          \<comment> \<open>the characters of each file on disk\<close>
  globbed :: "string \<rightharpoonup> string list"   \<comment> \<open>the \<^verbatim>\<open>*.java\<close> files of each existing directory\<close>
  written :: "(string \<times> string) list"   \<comment> \<open>every \<^verbatim>\<open>f.write\<close> call: the path and the text passed\<close>
  printed :: "string list"               \<comment> \<open>standard output, one entry per \<^verbatim>\<open>print\<close>\<close>

definition print :: "string \<Rightarrow> world \<Rightarrow> world" where
  "print line w = w\<lparr>printed := printed w @ [line]\<rparr>"

definition write_back :: "string \<Rightarrow> string \<Rightarrow> world \<Rightarrow> world" where
  \<comment> \<open>lines 58 and 59: the file is replaced by the text, its line ends translated\<close>
  "write_back file_path new_content w =
     w\<lparr>files := (files w)(file_path \<mapsto> translate_newlines (linesep (platform w)) new_content),
       written := written w @ [(file_path, new_content)]\<rparr>"

definition add_java_bean_getters :: "string \<Rightarrow> world \<Rightarrow> error + (bool \<times> world)" where
  "add_java_bean_getters file_path w =
     (case files w file_path of
        None \<Rightarrow> Inl FileNotFoundError
      | Some on_disk \<Rightarrow>
          let content = universal_newlines on_disk in
          if contains content marker
          then Inr (False, print (''Skipping '' @ file_path @ '' - already has JavaBean-style getters'') w)
          else let accessors = find_accessors content in
            if accessors = []
            then Inr (False, print (''Skipping '' @ file_path @ '' - no record-style accessors found'') w)
            else (case getters accessors of
                Inl e \<Rightarrow> Inl e
              | Inr gs \<Rightarrow>
                  (case insert_block content (join ''\<newline>'' gs) of
                     None \<Rightarrow>
                       Inr (False, print (''Warning: Could not find closing brace in '' @ file_path) w)
                   | Some new_content \<Rightarrow>
                       Inr (True, print (''Updated '' @ file_path) (write_back file_path new_content w)))))"

section \<open>The driver\<close>

fun process_files :: "string list \<Rightarrow> nat \<times> nat \<times> world \<Rightarrow> error + (nat \<times> nat \<times> world)" where
  \<comment> \<open>the inner loop over the files of one directory; the counters are
      \<open>(updated_count, total_count)\<close>\<close>
  "process_files [] acc = Inr acc"
| "process_files (java_file # rest) (updated_count, total_count, w) =
     (case add_java_bean_getters java_file w of
        Inl e \<Rightarrow> Inl e
      | Inr (updated, w') \<Rightarrow>
          process_files rest
            (if updated then updated_count + 1 else updated_count, total_count + 1, w'))"

fun process_dirs :: "string list \<Rightarrow> nat \<times> nat \<times> world \<Rightarrow> error + (nat \<times> nat \<times> world)" where
  "process_dirs [] acc = Inr acc"
| "process_dirs (event_dir # rest) (updated_count, total_count, w) =
     (case globbed w event_dir of
        None \<Rightarrow>
          process_dirs rest
            (updated_count, total_count, print (''Directory not found: '' @ event_dir) w)
      | Some java_files \<Rightarrow>
          (case process_files java_files (updated_count, total_count, w) of
             Inl e \<Rightarrow> Inl e
           | Inr acc \<Rightarrow> process_dirs rest acc))"

fun digits :: "nat \<Rightarrow> string" where
  \<comment> \<open>the decimal form of a counter in an f-string\<close>
  "digits n =
     (if n < 10 then [''0123456789'' ! n]
      else digits (n div 10) @ [''0123456789'' ! (n mod 10)])"

declare digits.simps [simp del]

definition main :: "string list \<Rightarrow> world \<Rightarrow> error + world" where
  \<comment> \<open>\<open>event_dirs\<close> is the list of the three directories, as the platform prints them\<close>
  "main event_dirs w =
     (case process_dirs event_dirs (0, 0, w) of
        Inl e \<Rightarrow> Inl e
      | Inr (updated_count, total_count, w') \<Rightarrow>
          Inr (print (''\<newline>Done! Updated '' @ digits updated_count @ '' out of ''
                       @ digits total_count @ '' files.'') w'))"

section \<open>Facts about the text primitives\<close>

lemma startswith_iff: "startswith s p \<longleftrightarrow> (\<exists>t. s = p @ t)"
  by (induction s p rule: startswith.induct) auto

lemma contains_iff: "contains s sub \<longleftrightarrow> (\<exists>a b. s = a @ sub @ b)"
proof (induction s)
  case Nil
  then show ?case by auto
next
  case (Cons c cs)
  show ?case
  proof
    assume "contains (c # cs) sub"
    then consider "startswith (c # cs) sub" | "contains cs sub" by auto
    then show "\<exists>a b. c # cs = a @ sub @ b"
    proof cases
      case 1
      then obtain t where "c # cs = sub @ t" by (auto simp: startswith_iff)
      then have "c # cs = [] @ sub @ t" by simp
      then show ?thesis by blast
    next
      case 2
      then obtain a b where "cs = a @ sub @ b" using Cons.IH by auto
      then have "c # cs = (c # a) @ sub @ b" by simp
      then show ?thesis by blast
    qed
  next
    assume "\<exists>a b. c # cs = a @ sub @ b"
    then obtain a b where ab: "c # cs = a @ sub @ b" by auto
    show "contains (c # cs) sub"
    proof (cases a)
      case Nil
      with ab have "startswith (c # cs) sub" by (auto simp: startswith_iff)
      then show ?thesis by simp
    next
      case (Cons x a')
      with ab have "cs = a' @ sub @ b" by simp
      then have "contains cs sub" using Cons.IH by auto
      then show ?thesis by simp
    qed
  qed
qed

lemma split_not_Nil: "split sep s \<noteq> []"
  by (induction s) (auto split: list.splits)

lemma join_Cons: "xs \<noteq> [] \<Longrightarrow> join sep (x # xs) = x @ sep @ join sep xs"
  by (cases xs) auto

lemma join_split: "join [sep] (split sep s) = s"
proof (induction s)
  case Nil
  then show ?case by simp
next
  case (Cons c cs)
  show ?case
  proof (cases "c = sep")
    case True
    then show ?thesis using Cons by (simp add: join_Cons split_not_Nil)
  next
    case False
    obtain l ls where s: "split sep cs = l # ls"
      using split_not_Nil [of sep cs] by (cases "split sep cs") auto
    then have "join [sep] ((c # l) # ls) = c # join [sep] (l # ls)"
      by (cases ls) auto
    with False s Cons show ?thesis by simp
  qed
qed

lemma split_no_sep: "l \<in> set (split sep s) \<Longrightarrow> sep \<notin> set l"
  by (induction s arbitrary: l) (auto split: if_splits list.splits)

lemma split_single: "sep \<notin> set x \<Longrightarrow> split sep x = [x]"
  by (induction x) auto

lemma split_append_sep: "sep \<notin> set x \<Longrightarrow> split sep (x @ sep # r) = x # split sep r"
  by (induction x) auto

lemma split_join:
  "\<forall>l\<in>set ls. sep \<notin> set l \<Longrightarrow> ls \<noteq> [] \<Longrightarrow> split sep (join [sep] ls) = ls"
proof (induction ls)
  case Nil
  then show ?case by simp
next
  case (Cons x xs)
  show ?case
  proof (cases "xs = []")
    case True
    with Cons.prems show ?thesis by (simp add: split_single)
  next
    case False
    with Cons have "split sep (join [sep] xs) = xs" by simp
    with False Cons.prems show ?thesis by (simp add: join_Cons split_append_sep)
  qed
qed

lemma join_append:
  "xs \<noteq> [] \<Longrightarrow> ys \<noteq> [] \<Longrightarrow> join sep (xs @ ys) = join sep xs @ sep @ join sep ys"
proof (induction xs)
  case Nil
  then show ?case by simp
next
  case (Cons x xs)
  show ?case
  proof (cases xs)
    case Nil
    then show ?thesis using Cons.prems by (simp add: join_Cons)
  next
    case (Cons a list)
    then show ?thesis using Cons.IH Cons.prems by (simp add: join_Cons)
  qed
qed

lemma join_insert_at:
  assumes "i < length ls"
  shows "\<exists>pre post. join sep ls = pre @ post \<and> join sep (insert_at i b ls) = pre @ b @ sep @ post
           \<and> post = join sep (drop i ls)"
proof (cases i)
  case 0
  with assms have "ls \<noteq> []" by auto
  then have "join sep (insert_at 0 b ls) = [] @ b @ sep @ join sep ls"
    by (simp add: insert_at_def join_Cons)
  with 0 show ?thesis by auto
next
  case (Suc k)
  let ?t = "take i ls" and ?d = "drop i ls"
  from assms Suc have ne: "?t \<noteq> []" "?d \<noteq> []" by auto
  have "join sep (?t @ ?d) = (join sep ?t @ sep) @ join sep ?d"
    using join_append [OF ne, of sep] by simp
  then have a: "join sep ls = (join sep ?t @ sep) @ join sep ?d" by simp
  have "join sep (insert_at i b ls) = join sep (?t @ (b # ?d))" by (simp add: insert_at_def)
  also have "\<dots> = join sep ?t @ sep @ join sep (b # ?d)" using ne by (simp add: join_append)
  also have "\<dots> = (join sep ?t @ sep) @ b @ sep @ join sep ?d" using ne by (simp add: join_Cons)
  finally show ?thesis using a by blast
qed

lemma join_mem: "x \<in> set xs \<Longrightarrow> \<exists>a b. join sep xs = a @ x @ b"
proof (induction xs)
  case Nil
  then show ?case by simp
next
  case (Cons y ys)
  show ?case
  proof (cases "ys = []")
    case True
    with Cons.prems have "join sep (y # ys) = [] @ x @ []" by simp
    then show ?thesis by blast
  next
    case False
    then have j: "join sep (y # ys) = y @ sep @ join sep ys" by (simp add: join_Cons)
    show ?thesis
    proof (cases "x = y")
      case True
      with j have "join sep (y # ys) = [] @ x @ (sep @ join sep ys)" by simp
      then show ?thesis by blast
    next
      case False
      with Cons obtain a b where "join sep ys = a @ x @ b" by auto
      with j have "join sep (y # ys) = (y @ sep @ a) @ x @ b" by simp
      then show ?thesis by blast
    qed
  qed
qed

lemma scan_back_Some:
  "scan_back ls n = Some i \<Longrightarrow>
     i < n \<and> strip (ls ! i) = ''}'' \<and> (\<forall>j. i < j \<and> j < n \<longrightarrow> strip (ls ! j) \<noteq> ''}'')"
proof (induction n)
  case 0
  then show ?case by simp
next
  case (Suc n)
  show ?case
  proof (cases "strip (ls ! n) = ''}''")
    case True
    with Suc.prems show ?thesis by auto
  next
    case False
    with Suc have "i < n \<and> strip (ls ! i) = ''}'' \<and> (\<forall>j. i < j \<and> j < n \<longrightarrow> strip (ls ! j) \<noteq> ''}'')"
      by simp
    with False show ?thesis by (auto simp: less_Suc_eq)
  qed
qed

lemma scan_back_None: "scan_back ls n = None \<longleftrightarrow> (\<forall>j<n. strip (ls ! j) \<noteq> ''}'')"
  by (induction n) (auto simp: less_Suc_eq)

section \<open>Facts about the matcher\<close>

lemma lit_Some: "lit p s = Some r \<longleftrightarrow> s = p @ r"
  by (induction p s rule: lit.induct) auto

lemma greedy_sound:
  "(a, r) \<in> set (greedy P s) \<Longrightarrow> s = a @ r \<and> (\<forall>c\<in>set a. P c)"
  by (induction s arbitrary: a r) (auto split: if_splits)

lemma in_ms_Lit: "x \<in> set (ms (Lit p) s g) \<longleftrightarrow> (\<exists>r. s = p @ r \<and> x = (p, r, g))"
proof (cases "lit p s")
  case None
  then have "\<And>r. s \<noteq> p @ r" using lit_Some [of p s] by auto
  with None show ?thesis by simp
next
  case (Some r)
  then have "s = p @ r" by (simp add: lit_Some)
  with Some show ?thesis by auto
qed

lemma in_ms_Star:
  "x \<in> set (ms (Star c) s g) \<Longrightarrow>
     \<exists>a r. x = (a, r, g) \<and> s = a @ r \<and> (\<forall>ch\<in>set a. in_class c ch)"
  using greedy_sound by fastforce

lemma in_ms_Plus:
  "x \<in> set (ms (Plus c) s g) \<Longrightarrow>
     \<exists>a r. x = (a, r, g) \<and> s = a @ r \<and> a \<noteq> [] \<and> (\<forall>ch\<in>set a. in_class c ch)"
  using greedy_sound by fastforce

lemma in_ms_Opt: "x \<in> set (ms (Opt r) s g) \<longleftrightarrow> x \<in> set (ms r s g) \<or> x = ([], s, g)"
  by auto

lemma in_ms_Group:
  "x \<in> set (ms (Group n r) s g) \<longleftrightarrow> (\<exists>a t g'. (a, t, g') \<in> set (ms r s g) \<and> x = (a, t, g'(n \<mapsto> a)))"
  by force

lemma in_ms_Seq:
  "x \<in> set (ms (Seq r1 r2) s g) \<longleftrightarrow>
     (\<exists>a t g' b u g''. (a, t, g') \<in> set (ms r1 s g) \<and> (b, u, g'') \<in> set (ms r2 t g')
        \<and> x = (a @ b, u, g''))"
  by force

lemma ms_split: "(a, r, g') \<in> set (ms rx s g) \<Longrightarrow> s = a @ r"
proof (induction rx arbitrary: a r g' s g)
  case (Lit p)
  then show ?case unfolding in_ms_Lit by blast
next
  case (Star c)
  from in_ms_Star [OF Star] show ?case by blast
next
  case (Plus c)
  from in_ms_Plus [OF Plus] show ?case by blast
next
  case (Opt rx)
  then show ?case unfolding in_ms_Opt by auto
next
  case (Group n rx)
  then show ?case unfolding in_ms_Group by blast
next
  case (Seq r1 r2)
  from Seq.prems obtain a1 t g1 b where
    1: "(a1, t, g1) \<in> set (ms r1 s g)" and 2: "(b, r, g') \<in> set (ms r2 t g1)" and "a = a1 @ b"
    unfolding in_ms_Seq by blast
  with Seq.IH(1) [OF 1] Seq.IH(2) [OF 2] show ?case by simp
qed

lemma re_match_Some: "re_match r s = Some m \<Longrightarrow> m \<in> set (ms r s Map.empty)"
  by (auto simp: re_match_def split: list.splits)

lemma re_match_None: "re_match r s = None \<longleftrightarrow> ms r s Map.empty = []"
  by (auto simp: re_match_def split: list.splits)

lemma peel_Lit:
  "(a, r, g') \<in> set (ms (Seq (Lit p) rx) s g) \<Longrightarrow>
     \<exists>b t. a = p @ b \<and> s = p @ t \<and> (b, r, g') \<in> set (ms rx t g)"
  unfolding in_ms_Seq in_ms_Lit by blast

lemma peel_Star:
  "(a, r, g') \<in> set (ms (Seq (Star c) rx) s g) \<Longrightarrow>
     \<exists>w b t. a = w @ b \<and> (\<forall>ch\<in>set w. in_class c ch) \<and> (b, r, g') \<in> set (ms rx t g)"
  unfolding in_ms_Seq by (blast dest: in_ms_Star)

lemma peel_Plus:
  "(a, r, g') \<in> set (ms (Seq (Plus c) rx) s g) \<Longrightarrow>
     \<exists>w b t. a = w @ b \<and> w \<noteq> [] \<and> (\<forall>ch\<in>set w. in_class c ch) \<and> (b, r, g') \<in> set (ms rx t g)"
  unfolding in_ms_Seq by (blast dest: in_ms_Plus)

lemma peel_Group_Plus:
  "(a, r, g') \<in> set (ms (Seq (Group n (Plus c)) rx) s g) \<Longrightarrow>
     \<exists>w b t. a = w @ b \<and> w \<noteq> [] \<and> (\<forall>ch\<in>set w. in_class c ch)
        \<and> (b, r, g') \<in> set (ms rx t (g(n \<mapsto> w)))"
  unfolding in_ms_Seq in_ms_Group by (blast dest: in_ms_Plus)

lemma ms_generic_suffix:
  "x \<in> set (ms (Opt (Seq (Lit p) (Seq (Plus c) (Lit q)))) s g) \<Longrightarrow> snd (snd x) = g"
  unfolding in_ms_Opt in_ms_Seq in_ms_Lit by (auto dest!: in_ms_Plus)

lemma peel_type:
  "(a, r, g') \<in> set (ms (Seq (Group n (Seq (Plus c) (Opt (Seq (Lit p) (Seq (Plus d) (Lit q)))))) rx) s g)
   \<Longrightarrow> \<exists>w b t. a = w @ b \<and> w \<noteq> [] \<and> (b, r, g') \<in> set (ms rx t (g(n \<mapsto> w)))"
proof -
  assume "(a, r, g') \<in> set (ms (Seq (Group n (Seq (Plus c) (Opt (Seq (Lit p) (Seq (Plus d) (Lit q)))))) rx) s g)"
  then obtain w t g1 b where
    w: "(w, t, g1) \<in> set (ms (Seq (Plus c) (Opt (Seq (Lit p) (Seq (Plus d) (Lit q))))) s g)"
    and b: "(b, r, g') \<in> set (ms rx t (g1(n \<mapsto> w)))" and a: "a = w @ b"
    unfolding in_ms_Seq [of _ "Group n _"] in_ms_Group by blast
  from w obtain w1 t1 g2 w2 where
    1: "(w1, t1, g2) \<in> set (ms (Plus c) s g)"
    and 2: "(w2, t, g1) \<in> set (ms (Opt (Seq (Lit p) (Seq (Plus d) (Lit q)))) t1 g2)"
    and "w = w1 @ w2"
    unfolding in_ms_Seq [of _ "Plus c"] by blast
  from in_ms_Plus [OF 1] have "w1 \<noteq> []" "g2 = g" by auto
  moreover from ms_generic_suffix [OF 2] have "g1 = g2" by simp
  ultimately have "a = w @ b \<and> w \<noteq> [] \<and> (b, r, g') \<in> set (ms rx t (g(n \<mapsto> w)))"
    using a b \<open>w = w1 @ w2\<close> by simp
  then show ?thesis by blast
qed

lemma last_Lit: "(a, r, g') \<in> set (ms (Lit p) s g) \<Longrightarrow> a = p \<and> g' = g"
  unfolding in_ms_Lit by blast

lemma accessor_match_shape:
  assumes "(a, r, g') \<in> set (ms accessor_pattern s g)"
  shows "\<exists>w1 ty w2 m w3 w4 w5 w6 f w7 w8.
     a = ''    public'' @ w1 @ ty @ w2 @ m @ ''()'' @ w3 @ ''{'' @ w4 @ ''\<newline>'' @ w5
           @ ''return'' @ w6 @ f @ '';'' @ w7 @ ''\<newline>'' @ w8 @ ''}''
     \<and> g' = g(1 \<mapsto> ty, 2 \<mapsto> m, 3 \<mapsto> f)
     \<and> w1 \<noteq> [] \<and> (\<forall>c\<in>set w1. is_space c) \<and> ty \<noteq> [] \<and> w2 \<noteq> [] \<and> (\<forall>c\<in>set w2. is_space c)
     \<and> m \<noteq> [] \<and> (\<forall>c\<in>set m. is_word c) \<and> (\<forall>c\<in>set w3. is_space c)
     \<and> (\<forall>c\<in>set w4. is_space c) \<and> (\<forall>c\<in>set w5. is_space c)
     \<and> w6 \<noteq> [] \<and> (\<forall>c\<in>set w6. is_space c) \<and> f \<noteq> [] \<and> (\<forall>c\<in>set f. is_word c)
     \<and> (\<forall>c\<in>set w7. is_space c) \<and> (\<forall>c\<in>set w8. is_space c)"
  using assms unfolding accessor_pattern_def seq.simps
  apply -
  apply (drule peel_Lit, elim exE conjE)
  apply (drule peel_Plus, elim exE conjE)
  apply (drule peel_type, elim exE conjE)
  apply (drule peel_Plus, elim exE conjE)
  apply (drule peel_Group_Plus, elim exE conjE)
  apply (drule peel_Lit, elim exE conjE)
  apply (drule peel_Star, elim exE conjE)
  apply (drule peel_Lit, elim exE conjE)
  apply (drule peel_Star, elim exE conjE)
  apply (drule peel_Lit, elim exE conjE)
  apply (drule peel_Star, elim exE conjE)
  apply (drule peel_Lit, elim exE conjE)
  apply (drule peel_Plus, elim exE conjE)
  apply (drule peel_Group_Plus, elim exE conjE)
  apply (drule peel_Lit, elim exE conjE)
  apply (drule peel_Star, elim exE conjE)
  apply (drule peel_Lit, elim exE conjE)
  apply (drule peel_Star, elim exE conjE)
  apply (drule last_Lit, elim conjE)
  apply (simp only: in_class.simps)
  apply hypsubst
  apply (intro exI conjI)
                   apply (rule refl)
                  apply (rule refl)
                 apply assumption+
  done

lemma accessor_re_match_shape:
  assumes "re_match accessor_pattern s = Some (a, rest, g)"
  shows "s = a @ rest \<and> (\<exists>w1 ty w2 m w3 w4 w5 w6 f w7 w8.
     a = ''    public'' @ w1 @ ty @ w2 @ m @ ''()'' @ w3 @ ''{'' @ w4 @ ''\<newline>'' @ w5
           @ ''return'' @ w6 @ f @ '';'' @ w7 @ ''\<newline>'' @ w8 @ ''}''
     \<and> g = [1 \<mapsto> ty, 2 \<mapsto> m, 3 \<mapsto> f]
     \<and> w1 \<noteq> [] \<and> (\<forall>c\<in>set w1. is_space c) \<and> ty \<noteq> [] \<and> w2 \<noteq> [] \<and> (\<forall>c\<in>set w2. is_space c)
     \<and> m \<noteq> [] \<and> (\<forall>c\<in>set m. is_word c) \<and> (\<forall>c\<in>set w3. is_space c)
     \<and> (\<forall>c\<in>set w4. is_space c) \<and> (\<forall>c\<in>set w5. is_space c)
     \<and> w6 \<noteq> [] \<and> (\<forall>c\<in>set w6. is_space c) \<and> f \<noteq> [] \<and> (\<forall>c\<in>set f. is_word c)
     \<and> (\<forall>c\<in>set w7. is_space c) \<and> (\<forall>c\<in>set w8. is_space c))"
proof -
  from re_match_Some [OF assms] have m: "(a, rest, g) \<in> set (ms accessor_pattern s Map.empty)" .
  from ms_split [OF m] accessor_match_shape [OF m] show ?thesis by blast
qed

lemma accessor_match_consumes:
  assumes "re_match accessor_pattern s = Some (a, rest, g)"
  shows "length rest < length s"
proof -
  from accessor_re_match_shape [OF assms] obtain b where "s = a @ rest" "a = ''    public'' @ b"
    by blast
  then show ?thesis by simp
qed

lemma findall_accessor_unfold:
  "findall accessor_pattern s =
     (case re_match accessor_pattern s of
        None \<Rightarrow> (case s of [] \<Rightarrow> [] | _ # cs \<Rightarrow> findall accessor_pattern cs)
      | Some (a, rest, g) \<Rightarrow> g # findall accessor_pattern rest)"
  by (subst findall.simps) (auto split: option.splits dest: accessor_match_consumes)

lemma findall_all:
  assumes "\<And>t a rest g. re_match r t = Some (a, rest, g) \<Longrightarrow> P g"
  shows "\<forall>g\<in>set (findall r s). P g"
proof (induction s rule: length_induct)
  case (1 s)
  have tl: "\<forall>g\<in>set (case s of [] \<Rightarrow> [] | _ # cs \<Rightarrow> findall r cs). P g"
    using 1 by (cases s) auto
  show ?case
  proof (cases "re_match r s")
    case None
    then show ?thesis using tl by (subst findall.simps) simp
  next
    case (Some m)
    obtain a rest g where m: "m = (a, rest, g)" by (cases m) auto
    have "P g" using assms Some m by blast
    moreover have "length rest < length s \<Longrightarrow> \<forall>g\<in>set (findall r rest). P g"
      using 1 by blast
    ultimately show ?thesis using Some m tl by (subst findall.simps) simp
  qed
qed

lemma findall_no_match:
  "(\<And>n. re_match r (drop n s) = None) \<Longrightarrow> findall r s = []"
proof (induction s)
  case Nil
  from Nil [of 0] show ?case by (subst findall.simps) simp
next
  case (Cons c cs)
  have "\<And>n. re_match r (drop n cs) = None" using Cons.prems [of "Suc n" for n] by simp
  then have "findall r cs = []" by (rule Cons.IH)
  moreover from Cons.prems [of 0] have "re_match r (c # cs) = None" by simp
  ultimately show ?case by (subst findall.simps) simp
qed

lemma find_accessors_names:
  assumes "(rt, m, f) \<in> set (find_accessors s)"
  shows "rt \<noteq> [] \<and> m \<noteq> [] \<and> (\<forall>c\<in>set m. is_word c) \<and> f \<noteq> [] \<and> (\<forall>c\<in>set f. is_word c)"
proof -
  let ?P = "\<lambda>g. group g 1 \<noteq> [] \<and> group g 2 \<noteq> [] \<and> (\<forall>c\<in>set (group g 2). is_word c)
                \<and> group g 3 \<noteq> [] \<and> (\<forall>c\<in>set (group g 3). is_word c)"
  have "\<forall>g\<in>set (findall accessor_pattern s). ?P g"
  proof (rule findall_all)
    fix t a rest g
    assume "re_match accessor_pattern t = Some (a, rest, g)"
    from accessor_re_match_shape [OF this] show "?P g"
      by (auto simp: group_def)
  qed
  with assms show ?thesis by (auto simp: find_accessors_def)
qed

lemma no_newline_no_match:
  assumes "CHR ''\<newline>'' \<notin> set s"
  shows "re_match accessor_pattern s = None"
proof (cases "re_match accessor_pattern s")
  case None
  then show ?thesis .
next
  case (Some x)
  obtain a rest g where "x = (a, rest, g)" by (cases x) auto
  with Some accessor_re_match_shape [of s a rest g] have "CHR ''\<newline>'' \<in> set s" by auto
  with assms show ?thesis by simp
qed

lemma no_newline_no_accessors:
  assumes "CHR ''\<newline>'' \<notin> set s"
  shows "find_accessors s = []"
proof -
  have "re_match accessor_pattern (drop n s) = None" for n
    using assms by (intro no_newline_no_match) (auto dest: in_set_dropD)
  then show ?thesis by (simp add: find_accessors_def findall_no_match)
qed


section \<open>Facts about the transformation\<close>

lemma getter_name_Cons:
  "getter_name rt (c # cs) =
     Inr (if rt = ''boolean'' \<and> startswith (c # cs) ''is'' then upper c # cs
          else ''get'' @ upper c # cs)"
  by (simp add: getter_name_def upper_first_def)

lemma getter_lines_list_all2:
  "getter_lines accs = Inr ls \<Longrightarrow>
     list_all2 (\<lambda>(rt, m, f) l. \<exists>n. getter_name rt m = Inr n \<and> l = getter_line rt n f) accs ls"
proof (induction accs arbitrary: ls)
  case Nil
  then show ?case by simp
next
  case (Cons x accs)
  obtain rt m f where x: "x = (rt, m, f)" by (cases x) auto
  from Cons.prems x obtain n ls' where
    "getter_name rt m = Inr n" "getter_lines accs = Inr ls'" "ls = getter_line rt n f # ls'"
    by (auto split: sum.splits)
  with Cons.IH x show ?case by simp
qed

lemma getter_lines_total:
  "\<forall>x\<in>set accs. fst (snd x) \<noteq> [] \<Longrightarrow> \<exists>ls. getter_lines accs = Inr ls"
proof (induction accs)
  case Nil
  then show ?case by simp
next
  case (Cons x accs)
  obtain rt m f where x: "x = (rt, m, f)" by (cases x) auto
  with Cons.prems obtain c cs where "m = c # cs" by (cases m) auto
  then have "\<exists>n. getter_name rt m = Inr n" by (simp add: getter_name_Cons)
  moreover from Cons obtain ls where "getter_lines accs = Inr ls" by auto
  ultimately show ?case using x by auto
qed

lemma getters_of_found:
  "\<exists>ls. getters (find_accessors content) = Inr ((''\<newline>    '' @ marker) # ls)"
proof -
  have "\<forall>x\<in>set (find_accessors content). fst (snd x) \<noteq> []"
    using find_accessors_names by (metis prod.collapse)
  from getter_lines_total [OF this] show ?thesis by (auto simp: getters_def)
qed

lemma insert_block_Some:
  assumes "insert_block content block = Some new"
  shows "\<exists>i. i < length (split CHR ''\<newline>'' content)
           \<and> last_brace_idx (split CHR ''\<newline>'' content) = Some i
           \<and> new = join ''\<newline>'' (insert_at i block (split CHR ''\<newline>'' content))"
  using assms scan_back_Some
  by (fastforce simp: insert_block_def Let_def last_brace_idx_def split: option.splits)

lemma insert_block_additive:
  assumes "insert_block content block = Some new"
  shows "\<exists>pre post. content = pre @ post \<and> new = pre @ block @ ''\<newline>'' @ post"
proof -
  from insert_block_Some [OF assms] obtain i where
    i: "i < length (split CHR ''\<newline>'' content)"
    and new: "new = join ''\<newline>'' (insert_at i block (split CHR ''\<newline>'' content))" by blast
  from join_insert_at [OF i, of "''\<newline>''" block] join_split [of "CHR ''\<newline>''" content] new
  show ?thesis by auto
qed

lemma insert_block_contains:
  assumes "insert_block content (join ''\<newline>'' ((pfx @ marker) # ls)) = Some new"
  shows "contains new marker"
proof -
  from insert_block_additive [OF assms] obtain pre post where
    new: "new = pre @ join ''\<newline>'' ((pfx @ marker) # ls) @ ''\<newline>'' @ post" by blast
  obtain a b where "join ''\<newline>'' ((pfx @ marker) # ls) = a @ (pfx @ marker) @ b"
    using join_mem [of "pfx @ marker" "(pfx @ marker) # ls" "''\<newline>''"] by auto
  with new have "new = (pre @ a @ pfx) @ marker @ (b @ ''\<newline>'' @ post)" by simp
  then show ?thesis unfolding contains_iff by blast
qed

text \<open>Line ends on the way to the disk and back.\<close>

lemma translate_newlines_append:
  "translate_newlines sep (xs @ ys) = translate_newlines sep xs @ translate_newlines sep ys"
  by (induction xs) auto

lemma translate_newlines_plain:
  "CHR ''\<newline>'' \<notin> set xs \<Longrightarrow> translate_newlines sep xs = xs"
  by (induction xs) auto

lemma translate_newlines_POSIX: "translate_newlines (linesep POSIX) xs = xs"
  by (induction xs) auto

lemma universal_newlines_plain:
  "CHR 0x0D \<notin> set xs \<Longrightarrow> universal_newlines (xs @ ys) = xs @ universal_newlines ys"
proof (induction xs)
  case Nil
  then show ?case by simp
next
  case (Cons x xs)
  then show ?case by (cases "xs @ ys") auto
qed

lemma universal_newlines_append:
  "ys = [] \<or> hd ys \<noteq> CHR ''\<newline>'' \<Longrightarrow>
     universal_newlines (xs @ ys) = universal_newlines xs @ universal_newlines ys"
proof (induction xs rule: universal_newlines.induct)
  case 1
  then show ?case by simp
next
  case (2 c)
  then show ?case by (cases ys) auto
next
  case (3 c d ds)
  then show ?case by auto
qed

lemma universal_newlines_no_CR: "CHR 0x0D \<notin> set (universal_newlines xs)"
  by (induction xs rule: universal_newlines.induct) auto

lemma marker_plain: "CHR 0x0D \<notin> set marker" "CHR ''\<newline>'' \<notin> set marker" "marker \<noteq> []"
  "hd marker \<noteq> CHR ''\<newline>''"
  by (simp_all add: marker_def)

lemma contains_marker_on_disk:
  assumes "contains t marker"
  shows "contains (translate_newlines sep t) marker"
    and "contains (universal_newlines (translate_newlines sep t)) marker"
proof -
  from assms obtain a b where "t = a @ marker @ b" unfolding contains_iff by blast
  then have d: "translate_newlines sep t
                  = translate_newlines sep a @ marker @ translate_newlines sep b"
    by (simp add: translate_newlines_append translate_newlines_plain marker_plain)
  then show "contains (translate_newlines sep t) marker" unfolding contains_iff by blast
  have "universal_newlines (translate_newlines sep a @ marker @ translate_newlines sep b)
          = universal_newlines (translate_newlines sep a)
              @ universal_newlines (marker @ translate_newlines sep b)"
    by (rule universal_newlines_append) (simp add: marker_plain)
  also have "universal_newlines (marker @ translate_newlines sep b)
               = marker @ universal_newlines (translate_newlines sep b)"
    by (rule universal_newlines_plain) (simp add: marker_plain)
  finally show "contains (universal_newlines (translate_newlines sep t)) marker"
    unfolding d contains_iff by blast
qed

text \<open>What one call does, case by case.\<close>

lemma add_marked:
  "files w p = Some data \<Longrightarrow> contains (universal_newlines data) marker \<Longrightarrow>
     add_java_bean_getters p w =
       Inr (False, print (''Skipping '' @ p @ '' - already has JavaBean-style getters'') w)"
  by (simp add: add_java_bean_getters_def)

lemma add_no_accessors:
  "files w p = Some data \<Longrightarrow> \<not> contains (universal_newlines data) marker \<Longrightarrow> find_accessors (universal_newlines data) = [] \<Longrightarrow>
     add_java_bean_getters p w =
       Inr (False, print (''Skipping '' @ p @ '' - no record-style accessors found'') w)"
  by (simp add: add_java_bean_getters_def)

lemma add_accessors:
  assumes "files w p = Some data" "\<not> contains (universal_newlines data) marker" "find_accessors (universal_newlines data) \<noteq> []"
  shows "\<exists>gs. getters (find_accessors (universal_newlines data)) = Inr gs \<and>
     add_java_bean_getters p w =
       (case insert_block (universal_newlines data) (join ''\<newline>'' gs) of
          None \<Rightarrow> Inr (False, print (''Warning: Could not find closing brace in '' @ p) w)
        | Some new_content \<Rightarrow>
            Inr (True, print (''Updated '' @ p) (write_back p new_content w)))"
proof -
  from getters_of_found obtain gs where "getters (find_accessors (universal_newlines data)) = Inr gs" by blast
  with assms show ?thesis by (simp add: add_java_bean_getters_def)
qed

lemma files_print [simp]: "files (print l w) = files w"
  and written_print [simp]: "written (print l w) = written w"
  and printed_print [simp]: "printed (print l w) = printed w @ [l]"
  and globbed_print [simp]: "globbed (print l w) = globbed w"
  and platform_print [simp]: "platform (print l w) = platform w"
  by (simp_all add: print_def)

lemma files_write_back [simp]:
    "files (write_back p t w) = (files w)(p \<mapsto> translate_newlines (linesep (platform w)) t)"
  and written_write_back [simp]: "written (write_back p t w) = written w @ [(p, t)]"
  and printed_write_back [simp]: "printed (write_back p t w) = printed w"
  and globbed_write_back [simp]: "globbed (write_back p t w) = globbed w"
  and platform_write_back [simp]: "platform (write_back p t w) = platform w"
  by (simp_all add: write_back_def)

lemma add_total:
  assumes "files w p = Some data"
  shows "\<exists>b w'. add_java_bean_getters p w = Inr (b, w')"
proof (cases "contains (universal_newlines data) marker")
  case True
  from add_marked [OF assms True] show ?thesis by blast
next
  case False
  show ?thesis
  proof (cases "find_accessors (universal_newlines data) = []")
    case True
    from add_no_accessors [OF assms False True] show ?thesis by blast
  next
    case ne: False
    from add_accessors [OF assms False ne] show ?thesis
      by (cases "insert_block (universal_newlines data) (join ''\<newline>'' (projr (getters (find_accessors (universal_newlines data)))))")
         auto
  qed
qed

lemma add_True:
  assumes "files w p = Some data" "add_java_bean_getters p w = Inr (True, w')"
  shows "\<not> contains (universal_newlines data) marker \<and> find_accessors (universal_newlines data) \<noteq> [] \<and>
    (\<exists>gs new. getters (find_accessors (universal_newlines data)) = Inr gs
       \<and> insert_block (universal_newlines data) (join ''\<newline>'' gs) = Some new
       \<and> w' = print (''Updated '' @ p) (write_back p new w))"
proof -
  have 1: "\<not> contains (universal_newlines data) marker" using assms add_marked by fastforce
  have 2: "find_accessors (universal_newlines data) \<noteq> []" using assms 1 add_no_accessors by fastforce
  from add_accessors [OF assms(1) 1 2] assms(2) show ?thesis using 1 2
    by (auto split: option.splits)
qed

lemma add_False:
  assumes "files w p = Some data" "add_java_bean_getters p w = Inr (False, w')"
  shows "files w' = files w \<and> written w' = written w \<and> (\<exists>l. printed w' = printed w @ [l])"
proof (cases "contains (universal_newlines data) marker")
  case True
  with assms show ?thesis by (auto simp: add_marked)
next
  case False
  show ?thesis
  proof (cases "find_accessors (universal_newlines data) = []")
    case True
    with assms False show ?thesis by (auto simp: add_no_accessors)
  next
    case ne: False
    from add_accessors [OF assms(1) False ne] assms(2) show ?thesis
      by (auto split: option.splits)
  qed
qed

lemma add_updates:
  assumes "files w p = Some data" "contains (universal_newlines data) marker = False"
    "find_accessors (universal_newlines data) = accs" "accs \<noteq> []" "getters accs = Inr gs"
    "insert_block (universal_newlines data) (join ''\<newline>'' gs) = Some new"
  shows "add_java_bean_getters p w = Inr (True, print (''Updated '' @ p) (write_back p new w))"
  using assms by (simp add: add_java_bean_getters_def)

lemma upper_newline: "upper c = CHR ''\<newline>'' \<longleftrightarrow> c = CHR ''\<newline>''"
  by (auto simp: upper_def split: option.splits if_splits)

lemma newline_upper: "CHR ''\<newline>'' = upper c \<longleftrightarrow> c = CHR ''\<newline>''"
  using upper_newline [of c] by auto


lemma accessor_match_body:
  assumes "re_match accessor_pattern s = Some (a, rest, g)"
  shows "\<exists>w1 ty w2 m w3 w4 w5 tail.
          a = ''    public'' @ w1 @ ty @ w2 @ m @ ''()'' @ w3 @ ''{'' @ w4 @ ''\<newline>'' @ w5
                @ ''return'' @ tail
        \<and> (\<forall>c\<in>set w3. is_space c) \<and> (\<forall>c\<in>set w4. is_space c) \<and> (\<forall>c\<in>set w5. is_space c)"
  using accessor_re_match_shape [OF assms]
  apply (elim conjE exE)
  apply (intro conjI exI)
     apply assumption+
  done

lemma accessor_match_example:
  "\<exists>a rest g. re_match accessor_pattern ''    public int x() {\<newline>        return x;\<newline>    }''
      = Some (a, rest, g)"
proof -
  have "ms accessor_pattern ''    public int x() {\<newline>        return x;\<newline>    }''
           Map.empty \<noteq> []"
    by code_simp
  then show ?thesis
    by (cases "ms accessor_pattern ''    public int x() {\<newline>        return x;\<newline>    }'' Map.empty")
       (auto simp: re_match_def)
qed

lemma getter_name_no_newline:
  assumes "getter_name rt m = Inr n" "CHR ''\<newline>'' \<notin> set m"
  shows "CHR ''\<newline>'' \<notin> set n"
proof (cases m)
  case Nil
  with assms show ?thesis by (simp add: getter_name_def upper_first_def)
next
  case (Cons c cs)
  with assms(2) have c: "upper c \<noteq> CHR ''\<newline>''" and cs: "CHR ''\<newline>'' \<notin> set cs"
    by (auto simp: upper_newline)
  from assms(1) Cons have "n = upper c # cs \<or> n = ''get'' @ upper c # cs"
    by (simp add: getter_name_Cons del: startswith.simps split: if_splits)
  with c cs show ?thesis by auto
qed

lemma getter_line_no_newline:
  "CHR ''\<newline>'' \<notin> set rt \<Longrightarrow> CHR ''\<newline>'' \<notin> set n \<Longrightarrow> CHR ''\<newline>'' \<notin> set f \<Longrightarrow>
     CHR ''\<newline>'' \<notin> set (getter_line rt n f)"
  by (simp add: getter_line_def)

lemma word_no_newline: "\<forall>c\<in>set m. is_word c \<Longrightarrow> CHR ''\<newline>'' \<notin> set m"
proof -
  have "\<not> is_word CHR ''\<newline>''" by (simp add: is_word_def)
  then show "\<forall>c\<in>set m. is_word c \<Longrightarrow> CHR ''\<newline>'' \<notin> set m" by blast
qed

lemma block_lines:
  assumes "\<forall>l\<in>set ls. CHR ''\<newline>'' \<notin> set l" "CHR ''\<newline>'' \<notin> set x"
  shows "split CHR ''\<newline>'' (join ''\<newline>'' ((''\<newline>'' @ x) # ls)) = [] # x # ls"
proof -
  have "join ''\<newline>'' ((''\<newline>'' @ x) # ls) = join ''\<newline>'' ([] # x # ls)"
    by (cases ls) simp_all
  moreover have "split CHR ''\<newline>'' (join [CHR ''\<newline>''] ([] # x # ls)) = [] # x # ls"
    using assms by (intro split_join) auto
  ultimately show ?thesis by simp
qed

lemma found_getter_lines:
  assumes "getter_lines (find_accessors content) = Inr ls"
  shows "length ls = length (find_accessors content)
       \<and> (\<forall>i<length ls. \<exists>rt m f n. find_accessors content ! i = (rt, m, f)
              \<and> getter_name rt m = Inr n \<and> ls ! i = getter_line rt n f
              \<and> (CHR ''\<newline>'' \<notin> set rt \<longrightarrow> CHR ''\<newline>'' \<notin> set (ls ! i)))"
proof -
  let ?accs = "find_accessors content"
  from getter_lines_list_all2 [OF assms] have
    l2: "list_all2 (\<lambda>(rt, m, f) l. \<exists>n. getter_name rt m = Inr n \<and> l = getter_line rt n f) ?accs ls" .
  then have len: "length ls = length ?accs" by (simp add: list_all2_lengthD)
  have "\<exists>rt m f n. ?accs ! i = (rt, m, f) \<and> getter_name rt m = Inr n \<and> ls ! i = getter_line rt n f
          \<and> (CHR ''\<newline>'' \<notin> set rt \<longrightarrow> CHR ''\<newline>'' \<notin> set (ls ! i))"
    if i: "i < length ls" for i
  proof -
    obtain rt m f where a: "?accs ! i = (rt, m, f)" by (cases "?accs ! i") auto
    from l2 i len have "(\<lambda>(rt, m, f) l. \<exists>n. getter_name rt m = Inr n \<and> l = getter_line rt n f)
                          (?accs ! i) (ls ! i)"
      by (simp add: list_all2_nthD2)
    with a obtain n where n: "getter_name rt m = Inr n" "ls ! i = getter_line rt n f" by auto
    from i len a have "(rt, m, f) \<in> set ?accs" by (metis nth_mem)
    from find_accessors_names [OF this] have "CHR ''\<newline>'' \<notin> set m" "CHR ''\<newline>'' \<notin> set f"
      by (simp_all add: word_no_newline)
    with n have "CHR ''\<newline>'' \<notin> set rt \<longrightarrow> CHR ''\<newline>'' \<notin> set (ls ! i)"
      by (simp add: getter_line_no_newline getter_name_no_newline)
    with a n show ?thesis by blast
  qed
  with len show ?thesis by blast
qed

lemma insert_block_None:
  assumes "\<forall>l\<in>set (split CHR ''\<newline>'' content). strip l \<noteq> ''}''"
  shows "insert_block content block = None"
proof -
  have "scan_back (split CHR ''\<newline>'' content) (length (split CHR ''\<newline>'' content)) = None"
    using assms by (simp add: scan_back_None)
  then show ?thesis by (simp add: insert_block_def last_brace_idx_def)
qed

lemma split_append_split: "split sep (a @ sep # b) = split sep a @ split sep b"
proof (induction a)
  case Nil
  then show ?case by simp
next
  case (Cons c a)
  obtain l ls where s: "split sep a = l # ls"
    using split_not_Nil [of sep a] by (cases "split sep a") auto
  with Cons show ?case by simp
qed

lemma split_join_concat:
  "xs \<noteq> [] \<Longrightarrow> split sep (join [sep] xs) = concat (map (split sep) xs)"
proof (induction xs)
  case Nil
  then show ?case by simp
next
  case (Cons x xs)
  show ?case
  proof (cases "xs = []")
    case True
    then show ?thesis by simp
  next
    case False
    with Cons show ?thesis by (simp add: join_Cons split_append_split)
  qed
qed

lemma split_one_line: "split sep x = [x] \<longleftrightarrow> sep \<notin> set x"
proof
  assume "split sep x = [x]"
  then have "x \<in> set (split sep x)" by simp
  then show "sep \<notin> set x" by (rule split_no_sep)
next
  assume "sep \<notin> set x"
  then show "split sep x = [x]" by (rule split_single)
qed

lemma block_all_lines:
  "split CHR ''\<newline>'' (join ''\<newline>'' (''\<newline>    // JavaBean-style getters'' # ls))
     = [] # ''    // JavaBean-style getters'' # concat (map (split CHR ''\<newline>'') ls)"
proof -
  have "join ''\<newline>'' (''\<newline>    // JavaBean-style getters'' # ls)
          = join [CHR ''\<newline>''] ([] # ''    // JavaBean-style getters'' # ls)"
    by (cases ls) simp_all
  moreover have "split CHR ''\<newline>'' ''    // JavaBean-style getters''
                   = [''    // JavaBean-style getters'']"
    by (rule split_single) simp
  ultimately show ?thesis by (simp add: split_join_concat del: join.simps)
qed

section \<open>The claims\<close>

subsection \<open>C1\<close>

text \<open>
  Claim C1, as amended. On the four-line input of the scenario, whose accessors have their
  body on one line, the extractor finds nothing: the call returns \<open>False\<close>, the file keeps
  its content, nothing is written, and a second call does the same. When the same two
  accessors are written with the body on a line of its own (opening brace, line break,
  return statement, line break, closing brace), the call inserts, immediately before the
  final \<^verbatim>\<open>}\<close> line, a blank line, the marker line, the line
  \<^verbatim>\<open>public String getName() { return name; }\<close> and the line
  \<^verbatim>\<open>public boolean IsActive() { return active; }\<close> (each indented by four spaces), and a
  second call on the result changes nothing.
\<close>

theorem scenario_amended:
  "(\<exists>w' w''.
      add_java_bean_getters ''E.java''
        \<lparr>platform = POSIX, files = [''E.java'' \<mapsto> ''public class E {\<newline>    public String name() { return name; }\<newline>    public boolean isActive() { return active; }\<newline>}''],
         globbed = Map.empty, written = [], printed = []\<rparr> = Inr (False, w')
    \<and> files w' ''E.java'' = Some ''public class E {\<newline>    public String name() { return name; }\<newline>    public boolean isActive() { return active; }\<newline>}''
    \<and> written w' = []
    \<and> add_java_bean_getters ''E.java'' w' = Inr (False, w'')
    \<and> files w'' = files w' \<and> written w'' = [])
   \<and> (\<exists>w' w''.
      add_java_bean_getters ''E.java''
        \<lparr>platform = POSIX, files = [''E.java'' \<mapsto> ''public class E {\<newline>    public String name() {\<newline>        return name;\<newline>    }\<newline>    public boolean isActive() {\<newline>        return active;\<newline>    }\<newline>}''],
         globbed = Map.empty, written = [], printed = []\<rparr> = Inr (True, w')
    \<and> files w' ''E.java'' = Some ''public class E {\<newline>    public String name() {\<newline>        return name;\<newline>    }\<newline>    public boolean isActive() {\<newline>        return active;\<newline>    }\<newline>\<newline>    // JavaBean-style getters\<newline>    public String getName() { return name; }\<newline>    public boolean IsActive() { return active; }\<newline>}''
    \<and> add_java_bean_getters ''E.java'' w' = Inr (False, w'')
    \<and> files w'' = files w' \<and> written w'' = written w')"
proof -
  let ?c = "''public class E {\<newline>    public String name() { return name; }\<newline>    public boolean isActive() { return active; }\<newline>}''"
  let ?w = "\<lparr>platform = POSIX, files = [''E.java'' \<mapsto> ?c], globbed = Map.empty, written = [], printed = []\<rparr>"
  let ?d = "''public class E {\<newline>    public String name() {\<newline>        return name;\<newline>    }\<newline>    public boolean isActive() {\<newline>        return active;\<newline>    }\<newline>}''"
  let ?n = "''public class E {\<newline>    public String name() {\<newline>        return name;\<newline>    }\<newline>    public boolean isActive() {\<newline>        return active;\<newline>    }\<newline>\<newline>    // JavaBean-style getters\<newline>    public String getName() { return name; }\<newline>    public boolean IsActive() { return active; }\<newline>}''"
  let ?v = "\<lparr>platform = POSIX, files = [''E.java'' \<mapsto> ?d], globbed = Map.empty, written = [], printed = []\<rparr>"
  let ?accs = "[(''String'', ''name'', ''name''), (''boolean'', ''isActive'', ''active'')]"
  let ?gs = "[''\<newline>    // JavaBean-style getters'',
              ''    public String getName() { return name; }'',
              ''    public boolean IsActive() { return active; }'']"
  have f: "files ?w ''E.java'' = Some ?c" by simp
  have uc: "universal_newlines ?c = ?c" by code_simp
  have m: "\<not> contains (universal_newlines ?c) marker" unfolding uc by code_simp
  have a: "find_accessors (universal_newlines ?c) = []" unfolding uc by code_simp
  let ?w1 = "print ''Skipping E.java - no record-style accessors found'' ?w"
  have r1: "add_java_bean_getters ''E.java'' ?w = Inr (False, ?w1)"
    using add_no_accessors [OF f m a] by simp
  have f1: "files ?w1 ''E.java'' = Some ?c" by simp
  have r2: "add_java_bean_getters ''E.java'' ?w1
              = Inr (False, print ''Skipping E.java - no record-style accessors found'' ?w1)"
    using add_no_accessors [OF f1 m a] by simp
  have first: "\<exists>w' w''. add_java_bean_getters ''E.java'' ?w = Inr (False, w')
      \<and> files w' ''E.java'' = Some ?c \<and> written w' = []
      \<and> add_java_bean_getters ''E.java'' w' = Inr (False, w'')
      \<and> files w'' = files w' \<and> written w'' = []"
    using r1 r2 by simp
  have g: "files ?v ''E.java'' = Some ?d" by simp
  have ud: "universal_newlines ?d = ?d" by code_simp
  have 1: "contains (universal_newlines ?d) marker = False" unfolding ud by code_simp
  have 2: "find_accessors (universal_newlines ?d) = ?accs" unfolding ud by code_simp
  have 3: "getters ?accs = Inr ?gs" by code_simp
  have 4: "insert_block (universal_newlines ?d) (join ''\<newline>'' ?gs) = Some ?n"
    unfolding ud by code_simp
  let ?v1 = "print ''Updated E.java'' (write_back ''E.java'' ?n ?v)"
  have s1: "add_java_bean_getters ''E.java'' ?v = Inr (True, ?v1)"
    using add_updates [OF g 1 2 _ 3 4] by simp
  have g1: "files ?v1 ''E.java'' = Some ?n" by (simp add: translate_newlines_POSIX)
  have un: "universal_newlines ?n = ?n" by code_simp
  have 5: "contains (universal_newlines ?n) marker" unfolding un by code_simp
  have s2: "add_java_bean_getters ''E.java'' ?v1
              = Inr (False, print ''Skipping E.java - already has JavaBean-style getters'' ?v1)"
    using add_marked [OF g1 5] by simp
  have second: "\<exists>w' w''. add_java_bean_getters ''E.java'' ?v = Inr (True, w')
      \<and> files w' ''E.java'' = Some ?n
      \<and> add_java_bean_getters ''E.java'' w' = Inr (False, w'')
      \<and> files w'' = files w' \<and> written w'' = written w'"
    using s1 s2 g1 by simp
  from first second show ?thesis by blast
qed

text \<open>
  The claim as stated expects the block to be inserted for the four-line input itself. There
  the pattern finds no accessor, since it wants a line break between the opening brace and
  \<^verbatim>\<open>return\<close>; the file is skipped and stays as it is.
\<close>

theorem scenario_inserts_nothing_counterexample:
  "find_accessors ''public class E {\<newline>    public String name() { return name; }\<newline>    public boolean isActive() { return active; }\<newline>}'' = []
   \<and> (\<exists>w'. add_java_bean_getters ''E.java''
          \<lparr>platform = POSIX, files = [''E.java'' \<mapsto> ''public class E {\<newline>    public String name() { return name; }\<newline>    public boolean isActive() { return active; }\<newline>}''],
           globbed = Map.empty, written = [], printed = []\<rparr> = Inr (False, w')
        \<and> files w' ''E.java'' = Some ''public class E {\<newline>    public String name() { return name; }\<newline>    public boolean isActive() { return active; }\<newline>}''
        \<and> written w' = []
        \<and> printed w' = [''Skipping E.java - no record-style accessors found''])"
proof -
  let ?c = "''public class E {\<newline>    public String name() { return name; }\<newline>    public boolean isActive() { return active; }\<newline>}''"
  let ?w = "\<lparr>platform = POSIX, files = [''E.java'' \<mapsto> ?c], globbed = Map.empty, written = [], printed = []\<rparr>"
  have f: "files ?w ''E.java'' = Some ?c" by simp
  have uc: "universal_newlines ?c = ?c" by code_simp
  have m: "\<not> contains (universal_newlines ?c) marker" unfolding uc by code_simp
  have a: "find_accessors (universal_newlines ?c) = []" unfolding uc by code_simp
  from add_no_accessors [OF f m a] a uc show ?thesis by simp
qed

subsection \<open>C2\<close>

text \<open>
  Claim C2. For every content of the file the call returns normally, and a second call on
  the resulting state returns \<open>False\<close>, writes nothing and leaves every file as the first
  call left it: running twice gives the same files as running once. When the first call
  did write, the file it left contains the marker literal, on disk and as read back, which
  is what stops the second.
\<close>

theorem second_run_is_noop:
  assumes "files w file_path = Some on_disk"
  shows "\<exists>updated w'.
           add_java_bean_getters file_path w = Inr (updated, w')
         \<and> (updated \<longrightarrow> (\<exists>new_on_disk. files w' file_path = Some new_on_disk
                              \<and> contains new_on_disk marker
                              \<and> contains (universal_newlines new_on_disk) marker))
         \<and> (\<exists>w''. add_java_bean_getters file_path w' = Inr (False, w'')
                \<and> files w'' = files w' \<and> written w'' = written w')"
proof -
  let ?content = "universal_newlines on_disk"
  from add_total [OF assms] obtain updated w' where
    r: "add_java_bean_getters file_path w = Inr (updated, w')" by blast
  show ?thesis
  proof (cases updated)
    case True
    with r have rT: "add_java_bean_getters file_path w = Inr (True, w')" by simp
    from add_True [OF assms rT] obtain gs new where
      gs: "getters (find_accessors ?content) = Inr gs"
      and ins: "insert_block ?content (join ''\<newline>'' gs) = Some new"
      and w': "w' = print (''Updated '' @ file_path) (write_back file_path new w)" by blast
    from getters_of_found [of ?content] gs obtain ls where
      "gs = (''\<newline>    '' @ marker) # ls" by auto
    with ins have c: "contains new marker" using insert_block_contains by blast
    let ?d = "translate_newlines (linesep (platform w)) new"
    from w' have f: "files w' file_path = Some ?d" by simp
    note d = contains_marker_on_disk [OF c, of "linesep (platform w)"]
    from add_marked [OF f d(2)] have
      "\<exists>w''. add_java_bean_getters file_path w' = Inr (False, w'')
              \<and> files w'' = files w' \<and> written w'' = written w'" by simp
    with rT f d show ?thesis by blast
  next
    case False
    with r have rF: "add_java_bean_getters file_path w = Inr (False, w')" by simp
    from add_False [OF assms rF] have same: "files w' = files w" by simp
    then have f: "files w' file_path = Some on_disk" using assms by simp
    from add_total [OF f] obtain b2 w'' where
      r2: "add_java_bean_getters file_path w' = Inr (b2, w'')" by blast
    have "\<not> b2"
    proof
      assume b2
      with r2 have "add_java_bean_getters file_path w' = Inr (True, w'')" by simp
      from add_True [OF f this] have t: "\<not> contains ?content marker"
        "find_accessors ?content \<noteq> []"
        and "\<exists>gs new. getters (find_accessors ?content) = Inr gs
               \<and> insert_block ?content (join ''\<newline>'' gs) = Some new" by blast+
      then obtain gs new where "getters (find_accessors ?content) = Inr gs"
        "insert_block ?content (join ''\<newline>'' gs) = Some new" by blast
      from add_updates [OF assms _ refl t(2) this] t(1)
      have "add_java_bean_getters file_path w
              = Inr (True, print (''Updated '' @ file_path) (write_back file_path new w))" by simp
      with rF show False by simp
    qed
    with r2 have r2F: "add_java_bean_getters file_path w' = Inr (False, w'')" by simp
    from add_False [OF f r2F] r2F have
      "add_java_bean_getters file_path w' = Inr (False, w'')
         \<and> files w'' = files w' \<and> written w'' = written w'" by simp
    with rF show ?thesis by blast
  qed
qed

theorem second_run_is_noop_witness:
  "files \<lparr>platform = POSIX, files = [''P.java'' \<mapsto> ''class P {\<newline>    public int x() {\<newline>        return x;\<newline>    }\<newline>}\<newline>''],
           globbed = Map.empty, written = [], printed = []\<rparr> ''P.java''
     = Some ''class P {\<newline>    public int x() {\<newline>        return x;\<newline>    }\<newline>}\<newline>''
   \<and> (\<exists>w' w''.
         add_java_bean_getters ''P.java''
           \<lparr>platform = POSIX, files = [''P.java'' \<mapsto> ''class P {\<newline>    public int x() {\<newline>        return x;\<newline>    }\<newline>}\<newline>''],
            globbed = Map.empty, written = [], printed = []\<rparr> = Inr (True, w')
       \<and> add_java_bean_getters ''P.java'' w' = Inr (False, w'')
       \<and> files w'' = files w' \<and> written w'' = written w')"
proof -
  let ?c = "''class P {\<newline>    public int x() {\<newline>        return x;\<newline>    }\<newline>}\<newline>''"
  let ?n = "''class P {\<newline>    public int x() {\<newline>        return x;\<newline>    }\<newline>\<newline>    // JavaBean-style getters\<newline>    public int getX() { return x; }\<newline>}\<newline>''"
  let ?w = "\<lparr>platform = POSIX, files = [''P.java'' \<mapsto> ?c], globbed = Map.empty, written = [], printed = []\<rparr>"
  let ?gs = "[''\<newline>    // JavaBean-style getters'', ''    public int getX() { return x; }'']"
  have f: "files ?w ''P.java'' = Some ?c" by simp
  have u: "universal_newlines ?c = ?c" by code_simp
  have 1: "contains (universal_newlines ?c) marker = False" unfolding u by code_simp
  have 2: "find_accessors (universal_newlines ?c) = [(''int'', ''x'', ''x'')]"
    unfolding u by code_simp
  have 3: "getters [(''int'', ''x'', ''x'')] = Inr ?gs" by code_simp
  have 4: "insert_block (universal_newlines ?c) (join ''\<newline>'' ?gs) = Some ?n"
    unfolding u by code_simp
  have a: "add_java_bean_getters ''P.java'' ?w
             = Inr (True, print ''Updated P.java'' (write_back ''P.java'' ?n ?w))"
    using add_updates [OF f 1 2 _ 3 4] by simp
  from second_run_is_noop [OF f] a f show ?thesis by auto
qed

subsection \<open>C3\<close>

text \<open>
  Claim C3. For a non-empty accessor name the alternate name is obtained by exactly two
  branches: when the return type is \<^verbatim>\<open>boolean\<close> and the name starts with \<^verbatim>\<open>is\<close>, the
  name with its first letter upper-cased (so \<^verbatim>\<open>is...\<close> becomes \<^verbatim>\<open>Is...\<close>, nothing is
  prefixed); in every other case \<^verbatim>\<open>get\<close> followed by the name with its first letter
  upper-cased and the rest unchanged. The result is a function of the return type and the
  name alone.
\<close>

theorem getter_name_two_branches:
  assumes "method_name \<noteq> []"
  shows "getter_name return_type method_name =
           Inr (if return_type = ''boolean'' \<and> (\<exists>rest. method_name = ''is'' @ rest)
                then upper (hd method_name) # tl method_name
                else ''get'' @ upper (hd method_name) # tl method_name)
         \<and> getter_name ''boolean'' (''is'' @ rest) = Inr (''Is'' @ rest)"
proof -
  from assms obtain c cs where m: "method_name = c # cs" by (cases method_name) auto
  have "startswith method_name ''is'' \<longleftrightarrow> (\<exists>rest. method_name = ''is'' @ rest)"
    by (rule startswith_iff)
  with m have 1: "getter_name return_type method_name =
           Inr (if return_type = ''boolean'' \<and> (\<exists>rest. method_name = ''is'' @ rest)
                then upper (hd method_name) # tl method_name
                else ''get'' @ upper (hd method_name) # tl method_name)"
    by (simp add: getter_name_Cons)
  have "upper CHR ''i'' = CHR ''I''" by (simp add: upper_def)
  then have "getter_name ''boolean'' (''is'' @ rest) = Inr (''Is'' @ rest)"
    by (simp add: getter_name_Cons)
  with 1 show ?thesis by simp
qed

theorem getter_name_two_branches_witness:
  "''isActive'' \<noteq> [] \<and> getter_name ''boolean'' ''isActive'' = Inr ''IsActive''
   \<and> ''name'' \<noteq> [] \<and> getter_name ''String'' ''name'' = Inr ''getName''
   \<and> getter_name ''Boolean'' ''isActive'' = Inr ''getIsActive''"
proof -
  have a: "''isActive'' \<noteq> []" and b: "''name'' \<noteq> []" by simp_all
  have u: "upper CHR ''i'' = CHR ''I''" "upper CHR ''n'' = CHR ''N''" by (simp_all add: upper_def)
  from getter_name_two_branches [OF a, of "''boolean''" "''Active''"]
       getter_name_two_branches [OF b, of "''String''"]
       getter_name_two_branches [OF a, of "''Boolean''"] u
  show ?thesis by simp
qed

subsection \<open>C4\<close>

text \<open>
  Claim C4. When at least one line of the document is, once stripped, exactly \<^verbatim>\<open>}\<close>, the
  insertion step finds the last such line (index \<open>i\<close>, no later line qualifies) and
  returns the document with the block inserted as a new list entry just before it: the
  lines before \<open>i\<close>, the block, then line \<open>i\<close> itself and all lines after it, all unchanged.
\<close>

theorem insert_before_last_brace:
  assumes "\<exists>l\<in>set (split CHR ''\<newline>'' content). strip l = ''}''"
  shows "\<exists>i. i < length (split CHR ''\<newline>'' content)
           \<and> strip (split CHR ''\<newline>'' content ! i) = ''}''
           \<and> (\<forall>j. i < j \<and> j < length (split CHR ''\<newline>'' content)
                  \<longrightarrow> strip (split CHR ''\<newline>'' content ! j) \<noteq> ''}'')
           \<and> insert_block content block =
               Some (join ''\<newline>'' (take i (split CHR ''\<newline>'' content) @ [block]
                                    @ drop i (split CHR ''\<newline>'' content)))"
proof -
  let ?ls = "split CHR ''\<newline>'' content"
  from assms obtain k where "k < length ?ls" "strip (?ls ! k) = ''}''"
    by (auto simp: in_set_conv_nth)
  then have "scan_back ?ls (length ?ls) \<noteq> None" by (auto simp: scan_back_None)
  then obtain i where i: "scan_back ?ls (length ?ls) = Some i" by auto
  then have "insert_block content block = Some (join ''\<newline>'' (take i ?ls @ [block] @ drop i ?ls))"
    by (simp add: insert_block_def last_brace_idx_def insert_at_def Let_def)
  with scan_back_Some [OF i] show ?thesis by blast
qed

theorem insert_before_last_brace_witness:
  "(\<exists>l\<in>set (split CHR ''\<newline>'' ''class A {\<newline>}\<newline>class B {\<newline>  }\<newline>// end''). strip l = ''}'')
   \<and> insert_block ''class A {\<newline>}\<newline>class B {\<newline>  }\<newline>// end'' ''BLOCK''
       = Some ''class A {\<newline>}\<newline>class B {\<newline>BLOCK\<newline>  }\<newline>// end''"
proof -
  have h: "\<exists>l\<in>set (split CHR ''\<newline>'' ''class A {\<newline>}\<newline>class B {\<newline>  }\<newline>// end''). strip l = ''}''"
    by code_simp
  have e: "insert_block ''class A {\<newline>}\<newline>class B {\<newline>  }\<newline>// end'' ''BLOCK''
       = Some ''class A {\<newline>}\<newline>class B {\<newline>BLOCK\<newline>  }\<newline>// end''"
    by code_simp
  from insert_before_last_brace [OF h, of "''BLOCK''"] h e show ?thesis by blast
qed

subsection \<open>C5\<close>

text \<open>
  Claim C5, as amended. Whenever a call writes back (it returns \<open>True\<close>), the text passed
  to \<^verbatim>\<open>write\<close> is the text read with one piece inserted at one point: the text read is
  \<open>pre @ post\<close> and the text written is \<open>pre\<close>, the synthesized block as a line of its own
  (the block and the newline that ends it), then \<open>post\<close>; it is the only write of the
  call. On disk every newline of that text becomes the line separator of the platform.
  When the line ends of the file were those of the platform already (translating the text
  read gives the file back), the file is changed in the same additive way: the characters
  before and after the inserted piece are those of the input.
\<close>

theorem insertion_is_additive:
  assumes "files w file_path = Some on_disk" and "content = universal_newlines on_disk"
    and "add_java_bean_getters file_path w = Inr (True, w')"
  shows "\<exists>pre post gs.
           content = pre @ post
         \<and> getters (find_accessors content) = Inr gs
         \<and> written w' = written w @ [(file_path, pre @ join ''\<newline>'' gs @ ''\<newline>'' @ post)]
         \<and> files w' file_path =
             Some (translate_newlines (linesep (platform w))
                     (pre @ join ''\<newline>'' gs @ ''\<newline>'' @ post))
         \<and> (translate_newlines (linesep (platform w)) content = on_disk \<longrightarrow>
               on_disk = translate_newlines (linesep (platform w)) pre
                           @ translate_newlines (linesep (platform w)) post
             \<and> files w' file_path =
                 Some (translate_newlines (linesep (platform w)) pre
                         @ translate_newlines (linesep (platform w)) (join ''\<newline>'' gs @ ''\<newline>'')
                         @ translate_newlines (linesep (platform w)) post))"
proof -
  from add_True [OF assms(1) assms(3)] obtain gs new where
    gs: "getters (find_accessors content) = Inr gs"
    and ins: "insert_block content (join ''\<newline>'' gs) = Some new"
    and w': "w' = print (''Updated '' @ file_path) (write_back file_path new w)"
    unfolding assms(2) by blast
  from insert_block_additive [OF ins] obtain pre post where
    c: "content = pre @ post" and new: "new = pre @ join ''\<newline>'' gs @ ''\<newline>'' @ post" by blast
  let ?sep = "linesep (platform w)"
  have 1: "written w' = written w @ [(file_path, pre @ join ''\<newline>'' gs @ ''\<newline>'' @ post)]"
    using w' new by simp
  have 2: "files w' file_path =
             Some (translate_newlines ?sep (pre @ join ''\<newline>'' gs @ ''\<newline>'' @ post))"
    using w' new by simp
  have 3: "translate_newlines ?sep content = on_disk \<longrightarrow>
               on_disk = translate_newlines ?sep pre @ translate_newlines ?sep post
             \<and> files w' file_path =
                 Some (translate_newlines ?sep pre
                         @ translate_newlines ?sep (join ''\<newline>'' gs @ ''\<newline>'')
                         @ translate_newlines ?sep post)"
    using 2 c by (auto simp: translate_newlines_append)
  from c gs 1 2 3 show ?thesis by blast
qed

theorem insertion_is_additive_witness:
  "files \<lparr>platform = Windows,
           files = [''P.java'' \<mapsto> ''class P {'' @ [CHR 0x0D, CHR ''\<newline>'']
                      @ ''    public int x() {'' @ [CHR 0x0D, CHR ''\<newline>'']
                      @ ''        return x;'' @ [CHR 0x0D, CHR ''\<newline>'']
                      @ ''    }'' @ [CHR 0x0D, CHR ''\<newline>''] @ ''}'' @ [CHR 0x0D, CHR ''\<newline>'']],
           globbed = Map.empty, written = [], printed = []\<rparr> ''P.java''
     = Some (''class P {'' @ [CHR 0x0D, CHR ''\<newline>'']
                      @ ''    public int x() {'' @ [CHR 0x0D, CHR ''\<newline>'']
                      @ ''        return x;'' @ [CHR 0x0D, CHR ''\<newline>'']
                      @ ''    }'' @ [CHR 0x0D, CHR ''\<newline>''] @ ''}'' @ [CHR 0x0D, CHR ''\<newline>''])
   \<and> ''class P {\<newline>    public int x() {\<newline>        return x;\<newline>    }\<newline>}\<newline>''
       = universal_newlines (''class P {'' @ [CHR 0x0D, CHR ''\<newline>'']
                      @ ''    public int x() {'' @ [CHR 0x0D, CHR ''\<newline>'']
                      @ ''        return x;'' @ [CHR 0x0D, CHR ''\<newline>'']
                      @ ''    }'' @ [CHR 0x0D, CHR ''\<newline>''] @ ''}'' @ [CHR 0x0D, CHR ''\<newline>''])
   \<and> translate_newlines (linesep Windows)
         ''class P {\<newline>    public int x() {\<newline>        return x;\<newline>    }\<newline>}\<newline>''
       = ''class P {'' @ [CHR 0x0D, CHR ''\<newline>'']
                      @ ''    public int x() {'' @ [CHR 0x0D, CHR ''\<newline>'']
                      @ ''        return x;'' @ [CHR 0x0D, CHR ''\<newline>'']
                      @ ''    }'' @ [CHR 0x0D, CHR ''\<newline>''] @ ''}'' @ [CHR 0x0D, CHR ''\<newline>'']
   \<and> (\<exists>w' pre post gs.
         add_java_bean_getters ''P.java''
           \<lparr>platform = Windows,
            files = [''P.java'' \<mapsto> ''class P {'' @ [CHR 0x0D, CHR ''\<newline>'']
                      @ ''    public int x() {'' @ [CHR 0x0D, CHR ''\<newline>'']
                      @ ''        return x;'' @ [CHR 0x0D, CHR ''\<newline>'']
                      @ ''    }'' @ [CHR 0x0D, CHR ''\<newline>''] @ ''}'' @ [CHR 0x0D, CHR ''\<newline>'']],
            globbed = Map.empty, written = [], printed = []\<rparr> = Inr (True, w')
       \<and> ''class P {\<newline>    public int x() {\<newline>        return x;\<newline>    }\<newline>}\<newline>'' = pre @ post
       \<and> written w' = [(''P.java'', pre @ join ''\<newline>'' gs @ ''\<newline>'' @ post)]
       \<and> ''class P {'' @ [CHR 0x0D, CHR ''\<newline>'']
                      @ ''    public int x() {'' @ [CHR 0x0D, CHR ''\<newline>'']
                      @ ''        return x;'' @ [CHR 0x0D, CHR ''\<newline>'']
                      @ ''    }'' @ [CHR 0x0D, CHR ''\<newline>''] @ ''}'' @ [CHR 0x0D, CHR ''\<newline>'']
           = translate_newlines (linesep Windows) pre @ translate_newlines (linesep Windows) post
       \<and> files w' ''P.java'' =
           Some (translate_newlines (linesep Windows) pre
                   @ translate_newlines (linesep Windows) (join ''\<newline>'' gs @ ''\<newline>'')
                   @ translate_newlines (linesep Windows) post))"
proof -
  let ?d = "''class P {'' @ [CHR 0x0D, CHR ''\<newline>'']
                      @ ''    public int x() {'' @ [CHR 0x0D, CHR ''\<newline>'']
                      @ ''        return x;'' @ [CHR 0x0D, CHR ''\<newline>'']
                      @ ''    }'' @ [CHR 0x0D, CHR ''\<newline>''] @ ''}'' @ [CHR 0x0D, CHR ''\<newline>'']"
  let ?c = "''class P {\<newline>    public int x() {\<newline>        return x;\<newline>    }\<newline>}\<newline>''"
  let ?n = "''class P {\<newline>    public int x() {\<newline>        return x;\<newline>    }\<newline>\<newline>    // JavaBean-style getters\<newline>    public int getX() { return x; }\<newline>}\<newline>''"
  let ?w = "\<lparr>platform = Windows, files = [''P.java'' \<mapsto> ?d], globbed = Map.empty,
             written = [], printed = []\<rparr>"
  let ?gs = "[''\<newline>    // JavaBean-style getters'', ''    public int getX() { return x; }'']"
  have f: "files ?w ''P.java'' = Some ?d" by simp
  have u: "?c = universal_newlines ?d" by code_simp
  have t: "translate_newlines (linesep Windows) ?c = ?d" by code_simp
  have 1: "contains (universal_newlines ?d) marker = False" unfolding u [symmetric] by code_simp
  have 2: "find_accessors (universal_newlines ?d) = [(''int'', ''x'', ''x'')]"
    unfolding u [symmetric] by code_simp
  have 3: "getters [(''int'', ''x'', ''x'')] = Inr ?gs" by code_simp
  have 4: "insert_block (universal_newlines ?d) (join ''\<newline>'' ?gs) = Some ?n"
    unfolding u [symmetric] by code_simp
  have a: "add_java_bean_getters ''P.java'' ?w
             = Inr (True, print ''Updated P.java'' (write_back ''P.java'' ?n ?w))"
    using add_updates [OF f 1 2 _ 3 4] by simp
  have p: "platform ?w = Windows" by simp
  from insertion_is_additive [OF f u a] obtain pre post gs where
    c: "?c = pre @ post"
    and wr: "written (print ''Updated P.java'' (write_back ''P.java'' ?n ?w))
               = written ?w @ [(''P.java'', pre @ join ''\<newline>'' gs @ ''\<newline>'' @ post)]"
    and imp: "translate_newlines (linesep (platform ?w)) ?c = ?d \<longrightarrow>
               ?d = translate_newlines (linesep (platform ?w)) pre
                           @ translate_newlines (linesep (platform ?w)) post
             \<and> files (print ''Updated P.java'' (write_back ''P.java'' ?n ?w)) ''P.java'' =
                 Some (translate_newlines (linesep (platform ?w)) pre
                         @ translate_newlines (linesep (platform ?w)) (join ''\<newline>'' gs @ ''\<newline>'')
                         @ translate_newlines (linesep (platform ?w)) post)"
    by blast
  from imp t have
    d: "?d = translate_newlines (linesep Windows) pre @ translate_newlines (linesep Windows) post"
    and fl: "files (print ''Updated P.java'' (write_back ''P.java'' ?n ?w)) ''P.java'' =
                 Some (translate_newlines (linesep Windows) pre
                         @ translate_newlines (linesep Windows) (join ''\<newline>'' gs @ ''\<newline>'')
                         @ translate_newlines (linesep Windows) post)"
    unfolding p by blast+
  from wr have wr': "written (print ''Updated P.java'' (write_back ''P.java'' ?n ?w))
               = [(''P.java'', pre @ join ''\<newline>'' gs @ ''\<newline>'' @ post)]" by simp
  from a c wr' d fl have "\<exists>w' pre post gs.
         add_java_bean_getters ''P.java'' ?w = Inr (True, w')
       \<and> ?c = pre @ post
       \<and> written w' = [(''P.java'', pre @ join ''\<newline>'' gs @ ''\<newline>'' @ post)]
       \<and> ?d = translate_newlines (linesep Windows) pre @ translate_newlines (linesep Windows) post
       \<and> files w' ''P.java'' =
           Some (translate_newlines (linesep Windows) pre
                   @ translate_newlines (linesep Windows) (join ''\<newline>'' gs @ ''\<newline>'')
                   @ translate_newlines (linesep Windows) post)" by blast
  with f u t show ?thesis by blast
qed

text \<open>
  The claim as stated promises that no character of the input is altered, line ends
  included. A file with \<^verbatim>\<open>\r\n\<close> line ends processed on POSIX is read with \<^verbatim>\<open>\n\<close> line
  ends and written back with them: every \<^verbatim>\<open>\r\<close> is gone, so the output is not the input
  with something inserted.
\<close>

theorem line_ends_rewritten_counterexample:
  "\<exists>w'. add_java_bean_getters ''P.java''
          \<lparr>platform = POSIX,
           files = [''P.java'' \<mapsto> ''    public int x() {'' @ [CHR 0x0D, CHR ''\<newline>'']
                      @ '' return x;'' @ [CHR 0x0D, CHR ''\<newline>''] @ ''}''],
           globbed = Map.empty, written = [], printed = []\<rparr> = Inr (True, w')
      \<and> files w' ''P.java'' =
          Some ''    public int x() {\<newline> return x;\<newline>\<newline>    // JavaBean-style getters\<newline>    public int getX() { return x; }\<newline>}''
      \<and> \<not> (\<exists>pre inserted post.
             ''    public int x() {'' @ [CHR 0x0D, CHR ''\<newline>'']
                      @ '' return x;'' @ [CHR 0x0D, CHR ''\<newline>''] @ ''}'' = pre @ post
           \<and> ''    public int x() {\<newline> return x;\<newline>\<newline>    // JavaBean-style getters\<newline>    public int getX() { return x; }\<newline>}''
                = pre @ inserted @ post)"
proof -
  let ?d = "''    public int x() {'' @ [CHR 0x0D, CHR ''\<newline>'']
                      @ '' return x;'' @ [CHR 0x0D, CHR ''\<newline>''] @ ''}''"
  let ?c = "''    public int x() {\<newline> return x;\<newline>}''"
  let ?n = "''    public int x() {\<newline> return x;\<newline>\<newline>    // JavaBean-style getters\<newline>    public int getX() { return x; }\<newline>}''"
  let ?w = "\<lparr>platform = POSIX, files = [''P.java'' \<mapsto> ?d], globbed = Map.empty,
             written = [], printed = []\<rparr>"
  let ?gs = "[''\<newline>    // JavaBean-style getters'', ''    public int getX() { return x; }'']"
  have f: "files ?w ''P.java'' = Some ?d" by simp
  have u: "universal_newlines ?d = ?c" by code_simp
  have 1: "contains (universal_newlines ?d) marker = False" unfolding u by code_simp
  have 2: "find_accessors (universal_newlines ?d) = [(''int'', ''x'', ''x'')]"
    unfolding u by code_simp
  have 3: "getters [(''int'', ''x'', ''x'')] = Inr ?gs" by code_simp
  have 4: "insert_block (universal_newlines ?d) (join ''\<newline>'' ?gs) = Some ?n"
    unfolding u by code_simp
  have a: "add_java_bean_getters ''P.java'' ?w
             = Inr (True, print ''Updated P.java'' (write_back ''P.java'' ?n ?w))"
    using add_updates [OF f 1 2 _ 3 4] by simp
  have o: "files (print ''Updated P.java'' (write_back ''P.java'' ?n ?w)) ''P.java'' = Some ?n"
    by (simp add: translate_newlines_POSIX)
  have "\<not> (\<exists>pre inserted post. ?d = pre @ post \<and> ?n = pre @ inserted @ post)"
  proof
    assume "\<exists>pre inserted post. ?d = pre @ post \<and> ?n = pre @ inserted @ post"
    then obtain pre inserted post where d: "?d = pre @ post" and n: "?n = pre @ inserted @ post"
      by blast
    have "CHR 0x0D \<in> set ?d" by simp
    with d have "CHR 0x0D \<in> set (pre @ inserted @ post)" by auto
    with n have "CHR 0x0D \<in> set ?n" by simp
    then show False by simp
  qed
  with a o show ?thesis by blast
qed

subsection \<open>C6\<close>

text \<open>
  Claim C6. When the extractor finds no accessor in the content read from a file, the call
  returns \<open>False\<close>, writes nothing back (the log of writes is unchanged, so not even an
  unchanged copy is written) and leaves every file as it was; no marker block is emitted.
\<close>

theorem no_accessors_no_write:
  assumes "files w file_path = Some on_disk" and "content = universal_newlines on_disk"
    and "find_accessors content = []"
  shows "\<exists>w'. add_java_bean_getters file_path w = Inr (False, w')
           \<and> files w' = files w \<and> written w' = written w"
proof (cases "contains content marker")
  case True
  then have "contains (universal_newlines on_disk) marker" by (simp add: assms(2))
  from add_marked [OF assms(1) this] show ?thesis by simp
next
  case False
  then have "\<not> contains (universal_newlines on_disk) marker"
    and "find_accessors (universal_newlines on_disk) = []" using assms(2,3) by simp_all
  from add_no_accessors [OF assms(1) this] show ?thesis by simp
qed

theorem no_accessors_no_write_witness:
  "files \<lparr>platform = POSIX, files = [''E.java'' \<mapsto> ''class E {\<newline>    int x;\<newline>}\<newline>''], globbed = Map.empty,
           written = [], printed = []\<rparr> ''E.java'' = Some ''class E {\<newline>    int x;\<newline>}\<newline>''
   \<and> ''class E {\<newline>    int x;\<newline>}\<newline>'' = universal_newlines ''class E {\<newline>    int x;\<newline>}\<newline>''
   \<and> find_accessors ''class E {\<newline>    int x;\<newline>}\<newline>'' = []
   \<and> (\<exists>w'. add_java_bean_getters ''E.java''
              \<lparr>platform = POSIX, files = [''E.java'' \<mapsto> ''class E {\<newline>    int x;\<newline>}\<newline>''], globbed = Map.empty,
               written = [], printed = []\<rparr> = Inr (False, w')
          \<and> files w' ''E.java'' = Some ''class E {\<newline>    int x;\<newline>}\<newline>'' \<and> written w' = [])"
proof -
  let ?w = "\<lparr>platform = POSIX, files = [''E.java'' \<mapsto> ''class E {\<newline>    int x;\<newline>}\<newline>''], globbed = Map.empty,
               written = [], printed = []\<rparr>"
  have f: "files ?w ''E.java'' = Some ''class E {\<newline>    int x;\<newline>}\<newline>''" by simp
  have u: "''class E {\<newline>    int x;\<newline>}\<newline>'' = universal_newlines ''class E {\<newline>    int x;\<newline>}\<newline>''"
    by code_simp
  have e: "find_accessors ''class E {\<newline>    int x;\<newline>}\<newline>'' = []" by code_simp
  from no_accessors_no_write [OF f u e] f u e show ?thesis by auto
qed

subsection \<open>C7\<close>

text \<open>
  Claim C7, as amended. For every document none of whose lines is, once stripped, exactly
  \<^verbatim>\<open>}\<close>: the call returns \<open>False\<close>, writes nothing, leaves every file untouched and prints
  exactly one line, which names the file path; the driver's loop then goes on with the
  next file, counting the file as seen but not as updated. The line printed is the warning
  about the missing closing brace exactly when the document does not contain the marker
  and the extractor finds an accessor; otherwise the guard or the extractor has already
  skipped the file and the line is its skip message.
\<close>

theorem no_brace_line_is_safe:
  assumes "files w file_path = Some on_disk" and "content = universal_newlines on_disk"
    and "\<forall>l\<in>set (split CHR ''\<newline>'' content). strip l \<noteq> ''}''"
  shows "\<exists>w'. add_java_bean_getters file_path w = Inr (False, w')
           \<and> files w' = files w \<and> written w' = written w
           \<and> printed w' = printed w @
                [if contains content marker
                 then ''Skipping '' @ file_path @ '' - already has JavaBean-style getters''
                 else if find_accessors content = []
                 then ''Skipping '' @ file_path @ '' - no record-style accessors found''
                 else ''Warning: Could not find closing brace in '' @ file_path]
           \<and> process_files (file_path # rest) (updated_count, total_count, w)
               = process_files rest (updated_count, total_count + 1, w')"
proof -
  note f = assms(1) and nb = assms(3) [unfolded assms(2)]
  show ?thesis
  proof (cases "contains content marker")
    case True
    then have "contains (universal_newlines on_disk) marker" unfolding assms(2) .
    from add_marked [OF f this] True show ?thesis by simp
  next
    case False
    then have m: "\<not> contains (universal_newlines on_disk) marker" unfolding assms(2) .
    show ?thesis
    proof (cases "find_accessors content = []")
      case True
      then have "find_accessors (universal_newlines on_disk) = []" unfolding assms(2) .
      from add_no_accessors [OF f m this] False True show ?thesis by simp
    next
      case ne: False
      then have "find_accessors (universal_newlines on_disk) \<noteq> []" unfolding assms(2) .
      from add_accessors [OF f m this] obtain gs where
        "add_java_bean_getters file_path w =
           (case insert_block (universal_newlines on_disk) (join ''\<newline>'' gs) of
              None \<Rightarrow> Inr (False, print (''Warning: Could not find closing brace in '' @ file_path) w)
            | Some new_content \<Rightarrow>
                Inr (True, print (''Updated '' @ file_path) (write_back file_path new_content w)))"
        by blast
      with insert_block_None [OF nb] have
        "add_java_bean_getters file_path w
           = Inr (False, print (''Warning: Could not find closing brace in '' @ file_path) w)"
        by simp
      with False ne show ?thesis by simp
    qed
  qed
qed

theorem no_brace_line_is_safe_witness:
  "files \<lparr>platform = POSIX, files = [''X.java'' \<mapsto> ''    public int x() {\<newline>        return x;\<newline>    } // end''],
           globbed = Map.empty, written = [], printed = []\<rparr> ''X.java''
     = Some ''    public int x() {\<newline>        return x;\<newline>    } // end''
   \<and> ''    public int x() {\<newline>        return x;\<newline>    } // end''
       = universal_newlines ''    public int x() {\<newline>        return x;\<newline>    } // end''
   \<and> list_all (\<lambda>l. strip l \<noteq> ''}'')
        (split CHR ''\<newline>'' ''    public int x() {\<newline>        return x;\<newline>    } // end'')
   \<and> (\<exists>w'. add_java_bean_getters ''X.java''
          \<lparr>platform = POSIX, files = [''X.java'' \<mapsto> ''    public int x() {\<newline>        return x;\<newline>    } // end''],
           globbed = Map.empty, written = [], printed = []\<rparr> = Inr (False, w')
        \<and> written w' = []
        \<and> printed w' = [''Warning: Could not find closing brace in X.java'']
        \<and> process_files [''X.java'', ''Y.java'']
              (0, 0, \<lparr>platform = POSIX, files = [''X.java'' \<mapsto> ''    public int x() {\<newline>        return x;\<newline>    } // end''],
                      globbed = Map.empty, written = [], printed = []\<rparr>)
            = process_files [''Y.java''] (0, 1, w'))"
proof -
  let ?c = "''    public int x() {\<newline>        return x;\<newline>    } // end''"
  let ?w = "\<lparr>platform = POSIX, files = [''X.java'' \<mapsto> ?c], globbed = Map.empty, written = [], printed = []\<rparr>"
  have f: "files ?w ''X.java'' = Some ?c" by simp
  have la: "list_all (\<lambda>l. strip l \<noteq> ''}'') (split CHR ''\<newline>'' ?c)" by code_simp
  then have nb: "\<forall>l\<in>set (split CHR ''\<newline>'' ?c). strip l \<noteq> ''}''" unfolding list_all_iff .
  have u: "?c = universal_newlines ?c" by code_simp
  have m: "contains ?c marker = False" by code_simp
  have a: "find_accessors ?c = [(''int'', ''x'', ''x'')]" by code_simp
  from no_brace_line_is_safe [OF f u nb, of "[''Y.java'']" 0 0] m a f u la show ?thesis
    by auto
qed

text \<open>
  The claim as stated says the missing closing brace is what gets reported for every such
  document. For the one-line document \<^verbatim>\<open>class E {\<close> no line is a lone brace, yet the call
  reports that no accessor was found, and the warning is not printed.
\<close>

theorem no_brace_report_counterexample:
  "filter (\<lambda>l. strip l = ''}'') (split CHR ''\<newline>'' ''class E {'') = []
   \<and> (\<exists>w'. add_java_bean_getters ''E.java''
          \<lparr>platform = POSIX, files = [''E.java'' \<mapsto> ''class E {''], globbed = Map.empty, written = [],
           printed = []\<rparr> = Inr (False, w')
        \<and> printed w' = [''Skipping E.java - no record-style accessors found'']
        \<and> ''Warning: Could not find closing brace in E.java'' \<notin> set (printed w'))"
proof -
  let ?w = "\<lparr>platform = POSIX, files = [''E.java'' \<mapsto> ''class E {''], globbed = Map.empty, written = [],
           printed = []\<rparr>"
  have f: "files ?w ''E.java'' = Some ''class E {''" by simp
  have 1: "filter (\<lambda>l. strip l = ''}'') (split CHR ''\<newline>'' ''class E {'') = []" by code_simp
  have u: "universal_newlines ''class E {'' = ''class E {''" by code_simp
  have m: "\<not> contains (universal_newlines ''class E {'') marker" unfolding u by code_simp
  have a: "find_accessors (universal_newlines ''class E {'') = []" unfolding u by code_simp
  from add_no_accessors [OF f m a] 1 show ?thesis by simp
qed

subsection \<open>C8\<close>

text \<open>
  Claim C8, as amended. For the accessors extracted from any content, when there is at
  least one, the block is joined from one marker entry followed by exactly one declaration
  entry per accessor, in extraction order; a declaration entry is
  \<^verbatim>\<open>public <returnType> <alternateName>() { return <fieldName>; }\<close> behind four spaces of
  indentation. The marker entry is a blank line followed by the indented marker comment, so
  the block starts with a blank line. A declaration entry is one line exactly when its
  return type contains no line break; the lines of the block are the blank line, the
  marker line and then the lines of the entries in order.
\<close>

theorem synthesized_block_shape:
  assumes "find_accessors content \<noteq> []"
  shows "\<exists>ls. getters (find_accessors content) = Inr (''\<newline>    // JavaBean-style getters'' # ls)
       \<and> length ls = length (find_accessors content)
       \<and> (\<forall>i<length ls. \<exists>return_type method_name field_name name.
              find_accessors content ! i = (return_type, method_name, field_name)
            \<and> getter_name return_type method_name = Inr name
            \<and> ls ! i = ''    public '' @ return_type @ '' '' @ name @ ''() { return ''
                          @ field_name @ ''; }''
            \<and> (split CHR ''\<newline>'' (ls ! i) = [ls ! i] \<longleftrightarrow> CHR ''\<newline>'' \<notin> set return_type))
       \<and> split CHR ''\<newline>'' (join ''\<newline>'' (''\<newline>    // JavaBean-style getters'' # ls))
           = [] # ''    // JavaBean-style getters'' # concat (map (split CHR ''\<newline>'') ls)
       \<and> ((\<forall>a\<in>set (find_accessors content). CHR ''\<newline>'' \<notin> set (fst a)) \<longrightarrow>
            split CHR ''\<newline>'' (join ''\<newline>'' (''\<newline>    // JavaBean-style getters'' # ls))
              = [] # ''    // JavaBean-style getters'' # ls)"
proof -
  let ?accs = "find_accessors content"
  from getters_of_found [of content] obtain ls where
    g: "getters ?accs = Inr ((''\<newline>    '' @ marker) # ls)" by blast
  then have gl: "getter_lines ?accs = Inr ls" by (auto simp: getters_def split: sum.splits)
  note f = found_getter_lines [OF gl]
  from f have len: "length ls = length ?accs" by blast
  have shape: "\<exists>return_type method_name field_name name.
              ?accs ! i = (return_type, method_name, field_name)
            \<and> getter_name return_type method_name = Inr name
            \<and> ls ! i = ''    public '' @ return_type @ '' '' @ name @ ''() { return ''
                          @ field_name @ ''; }''
            \<and> (split CHR ''\<newline>'' (ls ! i) = [ls ! i] \<longleftrightarrow> CHR ''\<newline>'' \<notin> set return_type)"
    if i: "i < length ls" for i
  proof -
    from f i obtain rt m f' n where a: "?accs ! i = (rt, m, f')"
      and n: "getter_name rt m = Inr n" and l: "ls ! i = getter_line rt n f'"
      and imp: "CHR ''\<newline>'' \<notin> set rt \<longrightarrow> CHR ''\<newline>'' \<notin> set (ls ! i)" by blast
    from l have "CHR ''\<newline>'' \<in> set rt \<longrightarrow> CHR ''\<newline>'' \<in> set (ls ! i)"
      by (simp add: getter_line_def)
    with imp have "split CHR ''\<newline>'' (ls ! i) = [ls ! i] \<longleftrightarrow> CHR ''\<newline>'' \<notin> set rt"
      unfolding split_one_line by blast
    with a n l show ?thesis unfolding getter_line_def by blast
  qed
  have phys: "split CHR ''\<newline>'' (join ''\<newline>'' (''\<newline>    // JavaBean-style getters'' # ls))
              = [] # ''    // JavaBean-style getters'' # ls"
    if nl: "\<forall>a\<in>set ?accs. CHR ''\<newline>'' \<notin> set (fst a)"
  proof -
    have "CHR ''\<newline>'' \<notin> set (ls ! i)" if i: "i < length ls" for i
    proof -
      from f i obtain rt m f' where a: "?accs ! i = (rt, m, f')"
        and imp: "CHR ''\<newline>'' \<notin> set rt \<longrightarrow> CHR ''\<newline>'' \<notin> set (ls ! i)" by blast
      from i len have "?accs ! i \<in> set ?accs" by simp
      with nl a have "CHR ''\<newline>'' \<notin> set rt" by fastforce
      with imp show ?thesis by simp
    qed
    then have "\<forall>l\<in>set ls. CHR ''\<newline>'' \<notin> set l" by (auto simp: in_set_conv_nth)
    from block_lines [OF this, of "''    // JavaBean-style getters''"] show ?thesis by simp
  qed
  from g have g': "getters ?accs = Inr (''\<newline>    // JavaBean-style getters'' # ls)"
    by (simp add: marker_def)
  from g' len shape block_all_lines [of ls] phys show ?thesis by blast
qed

theorem synthesized_block_shape_witness:
  "find_accessors ''class P {\<newline>    public String name() {\<newline>        return name;\<newline>    }\<newline>    public boolean isActive() {\<newline>        return active;\<newline>    }\<newline>}''
     = [(''String'', ''name'', ''name''), (''boolean'', ''isActive'', ''active'')]
   \<and> getters [(''String'', ''name'', ''name''), (''boolean'', ''isActive'', ''active'')]
     = Inr [''\<newline>    // JavaBean-style getters'',
            ''    public String getName() { return name; }'',
            ''    public boolean IsActive() { return active; }'']
   \<and> split CHR ''\<newline>'' (join ''\<newline>'' [''\<newline>    // JavaBean-style getters'',
            ''    public String getName() { return name; }'',
            ''    public boolean IsActive() { return active; }''])
     = ['''', ''    // JavaBean-style getters'',
            ''    public String getName() { return name; }'',
            ''    public boolean IsActive() { return active; }'']"
proof -
  let ?c = "''class P {\<newline>    public String name() {\<newline>        return name;\<newline>    }\<newline>    public boolean isActive() {\<newline>        return active;\<newline>    }\<newline>}''"
  let ?accs = "[(''String'', ''name'', ''name''), (''boolean'', ''isActive'', ''active'')]"
  have a: "find_accessors ?c = ?accs" by code_simp
  then have ne: "find_accessors ?c \<noteq> []" by simp
  have g: "getters ?accs = Inr [''\<newline>    // JavaBean-style getters'',
            ''    public String getName() { return name; }'',
            ''    public boolean IsActive() { return active; }'']" by code_simp
  have nl: "\<forall>a\<in>set (find_accessors ?c). CHR ''\<newline>'' \<notin> set (fst a)" unfolding a by simp
  from synthesized_block_shape [OF ne] obtain ls where
    1: "getters (find_accessors ?c) = Inr (''\<newline>    // JavaBean-style getters'' # ls)"
    and 2: "(\<forall>a\<in>set (find_accessors ?c). CHR ''\<newline>'' \<notin> set (fst a)) \<longrightarrow>
            split CHR ''\<newline>'' (join ''\<newline>'' (''\<newline>    // JavaBean-style getters'' # ls))
              = [] # ''    // JavaBean-style getters'' # ls" by blast
  from 1 a g have ls: "ls = [''    public String getName() { return name; }'',
            ''    public boolean IsActive() { return active; }'']" by simp
  from 2 nl ls have "split CHR ''\<newline>'' (join ''\<newline>'' [''\<newline>    // JavaBean-style getters'',
            ''    public String getName() { return name; }'',
            ''    public boolean IsActive() { return active; }''])
     = ['''', ''    // JavaBean-style getters'',
            ''    public String getName() { return name; }'',
            ''    public boolean IsActive() { return active; }'']" by blast
  with a g show ?thesis by blast
qed

text \<open>
  The claim as stated counts one marker line and one declaration line per accessor. For a
  single accessor whose generic return type is broken over two lines the block has four
  lines: a blank one, the marker, and two for the one declaration.
\<close>

theorem block_lines_counterexample:
  "find_accessors ''    public Map<K,\<newline>        V> m() {\<newline>        return m;\<newline>    }\<newline>}''
     = [(''Map<K,\<newline>        V>'', ''m'', ''m'')]
   \<and> getters [(''Map<K,\<newline>        V>'', ''m'', ''m'')]
     = Inr [''\<newline>    // JavaBean-style getters'',
            ''    public Map<K,\<newline>        V> getM() { return m; }'']
   \<and> split CHR ''\<newline>'' (join ''\<newline>'' [''\<newline>    // JavaBean-style getters'',
            ''    public Map<K,\<newline>        V> getM() { return m; }''])
     = ['''', ''    // JavaBean-style getters'', ''    public Map<K,'',
        ''        V> getM() { return m; }'']"
proof -
  have 1: "find_accessors ''    public Map<K,\<newline>        V> m() {\<newline>        return m;\<newline>    }\<newline>}''
     = [(''Map<K,\<newline>        V>'', ''m'', ''m'')]" by code_simp
  have 2: "getters [(''Map<K,\<newline>        V>'', ''m'', ''m'')]
     = Inr [''\<newline>    // JavaBean-style getters'',
            ''    public Map<K,\<newline>        V> getM() { return m; }'']" by code_simp
  have 3: "split CHR ''\<newline>'' (join ''\<newline>'' [''\<newline>    // JavaBean-style getters'',
            ''    public Map<K,\<newline>        V> getM() { return m; }''])
     = ['''', ''    // JavaBean-style getters'', ''    public Map<K,'',
        ''        V> getM() { return m; }'']" by code_simp
  from 1 2 3 show ?thesis by blast
qed

subsection \<open>C9\<close>

text \<open>
  Claim C9, as amended. The text of every match has, after the \<^verbatim>\<open>()\<close> of the method and
  its opening brace, only white space up to a newline, and only white space from there to
  \<^verbatim>\<open>return\<close>: the brace is followed by a line break before the return statement. So a
  text without a newline yields no triple: an accessor written on one line, a getter line
  built from parts without a newline, and the getter line emitted for an extracted
  accessor whose return type has no line break, each scanned on its own. Nothing is said
  about a later pass over a whole file.
\<close>

theorem accessor_body_needs_newline:
  "(re_match accessor_pattern s = Some (a, rest, g) \<longrightarrow>
      (\<exists>w1 ty w2 m w3 w4 w5 tail.
          a = ''    public'' @ w1 @ ty @ w2 @ m @ ''()'' @ w3 @ ''{'' @ w4 @ ''\<newline>'' @ w5
                @ ''return'' @ tail
        \<and> (\<forall>c\<in>set w3. is_space c) \<and> (\<forall>c\<in>set w4. is_space c) \<and> (\<forall>c\<in>set w5. is_space c)))
   \<and> (CHR ''\<newline>'' \<notin> set s \<longrightarrow> find_accessors s = [])
   \<and> (CHR ''\<newline>'' \<notin> set (return_type @ name @ field_name) \<longrightarrow>
        find_accessors (getter_line return_type name field_name) = [])
   \<and> ((rt, method_name, f) \<in> set (find_accessors content) \<and> CHR ''\<newline>'' \<notin> set rt
        \<and> getter_name rt method_name = Inr n \<longrightarrow>
        find_accessors (getter_line rt n f) = [])"
proof (intro conjI impI)
  assume "re_match accessor_pattern s = Some (a, rest, g)"
  then show "\<exists>w1 ty w2 m w3 w4 w5 tail.
          a = ''    public'' @ w1 @ ty @ w2 @ m @ ''()'' @ w3 @ ''{'' @ w4 @ ''\<newline>'' @ w5
                @ ''return'' @ tail
        \<and> (\<forall>c\<in>set w3. is_space c) \<and> (\<forall>c\<in>set w4. is_space c) \<and> (\<forall>c\<in>set w5. is_space c)"
    by (rule accessor_match_body)
next
  assume "CHR ''\<newline>'' \<notin> set s"
  then show "find_accessors s = []" by (rule no_newline_no_accessors)
next
  assume "CHR ''\<newline>'' \<notin> set (return_type @ name @ field_name)"
  then have "CHR ''\<newline>'' \<notin> set (getter_line return_type name field_name)"
    by (simp add: getter_line_def)
  then show "find_accessors (getter_line return_type name field_name) = []"
    by (rule no_newline_no_accessors)
next
  assume h: "(rt, method_name, f) \<in> set (find_accessors content) \<and> CHR ''\<newline>'' \<notin> set rt
        \<and> getter_name rt method_name = Inr n"
  then have "(rt, method_name, f) \<in> set (find_accessors content)" by simp
  from find_accessors_names [OF this] have nm: "CHR ''\<newline>'' \<notin> set method_name"
    and nf: "CHR ''\<newline>'' \<notin> set f"
    by (simp_all add: word_no_newline)
  from h have gn: "getter_name rt method_name = Inr n" and nr: "CHR ''\<newline>'' \<notin> set rt"
    by simp_all
  from getter_name_no_newline [OF gn nm] have "CHR ''\<newline>'' \<notin> set n" .
  from getter_line_no_newline [OF nr this nf] have "CHR ''\<newline>'' \<notin> set (getter_line rt n f)" .
  then show "find_accessors (getter_line rt n f) = []" by (rule no_newline_no_accessors)
qed

theorem accessor_body_needs_newline_witness:
  "(\<exists>a rest g. re_match accessor_pattern ''    public int x() {\<newline>        return x;\<newline>    }'' = Some (a, rest, g)
      \<and> (\<exists>w1 ty w2 m w3 w4 w5 tail.
          a = ''    public'' @ w1 @ ty @ w2 @ m @ ''()'' @ w3 @ ''{'' @ w4 @ ''\<newline>'' @ w5
                @ ''return'' @ tail))
   \<and> CHR ''\<newline>'' \<notin> set ''    public int x() { return x; }''
   \<and> find_accessors ''    public int x() { return x; }'' = []
   \<and> CHR ''\<newline>'' \<notin> set (''int'' @ ''getX'' @ ''x'')
   \<and> find_accessors (getter_line ''int'' ''getX'' ''x'') = []
   \<and> (''int'', ''x'', ''x'') \<in> set (find_accessors ''    public int x() {\<newline>        return x;\<newline>    }'')
   \<and> CHR ''\<newline>'' \<notin> set ''int''
   \<and> getter_name ''int'' ''x'' = Inr ''getX''
   \<and> getter_line ''int'' ''getX'' ''x'' = ''    public int getX() { return x; }''"
proof -
  let ?ml = "''    public int x() {\<newline>        return x;\<newline>    }''"
  from accessor_match_example obtain a rest g where
    m: "re_match accessor_pattern ?ml = Some (a, rest, g)" by blast
  have n1: "CHR ''\<newline>'' \<notin> set ''    public int x() { return x; }''" by simp
  have n2: "CHR ''\<newline>'' \<notin> set (''int'' @ ''getX'' @ ''x'')" by simp
  have fa: "find_accessors ?ml = [(''int'', ''x'', ''x'')]" by code_simp
  then have mem: "(''int'', ''x'', ''x'') \<in> set (find_accessors ?ml)" by simp
  have n3: "CHR ''\<newline>'' \<notin> set ''int''" by simp
  have gn: "getter_name ''int'' ''x'' = Inr ''getX''" by code_simp
  have gl: "getter_line ''int'' ''getX'' ''x'' = ''    public int getX() { return x; }''"
    by (simp add: getter_line_def)
  note t = accessor_body_needs_newline
    [of ?ml a rest g "''int''" "''getX''" "''x''" "''int''" "''x''" "''x''" ?ml "''getX''"]
  note u = accessor_body_needs_newline
    [of "''    public int x() { return x; }''" a rest g "''int''" "''getX''" "''x''"
        "''int''" "''x''" "''x''" ?ml "''getX''"]
  from t m have 1: "\<exists>w1 ty w2 m w3 w4 w5 tail.
          a = ''    public'' @ w1 @ ty @ w2 @ m @ ''()'' @ w3 @ ''{'' @ w4 @ ''\<newline>'' @ w5
                @ ''return'' @ tail" by blast
  from u n1 have 2: "find_accessors ''    public int x() { return x; }'' = []" by blast
  from t mem n3 gn have 3: "find_accessors (getter_line ''int'' ''getX'' ''x'') = []" by blast
  from m 1 n1 2 n2 3 mem n3 gn gl show ?thesis by blast
qed

text \<open>
  The claim as stated says that no emitted getter line ever yields a triple, and that
  synthesized getters cannot be extracted again even without the marker guard. The getter
  emitted for a return type that spans lines and encloses an accessor yields that
  accessor; a pass over the written text finds two accessors where the first pass found
  one; and inside a larger text a match can start at a one-line getter and run on into the
  lines after it.
\<close>

theorem getter_reextracted_counterexample:
  "find_accessors ''    public A<\<newline>    public int z() {\<newline>        return z;\<newline>    }\<newline>    > foo() {\<newline>        return foo;\<newline>    }\<newline>}''
     = [(''A<\<newline>    public int z() {\<newline>        return z;\<newline>    }\<newline>    >'', ''foo'', ''foo'')]
   \<and> getters [(''A<\<newline>    public int z() {\<newline>        return z;\<newline>    }\<newline>    >'', ''foo'', ''foo'')]
     = Inr [''\<newline>    // JavaBean-style getters'',
            ''    public A<\<newline>    public int z() {\<newline>        return z;\<newline>    }\<newline>    > getFoo() { return foo; }'']
   \<and> find_accessors ''    public A<\<newline>    public int z() {\<newline>        return z;\<newline>    }\<newline>    > getFoo() { return foo; }''
     = [(''int'', ''z'', ''z'')]
   \<and> insert_block ''    public A<\<newline>    public int z() {\<newline>        return z;\<newline>    }\<newline>    > foo() {\<newline>        return foo;\<newline>    }\<newline>}''
        (join ''\<newline>'' [''\<newline>    // JavaBean-style getters'',
            ''    public A<\<newline>    public int z() {\<newline>        return z;\<newline>    }\<newline>    > getFoo() { return foo; }''])
     = Some ''    public A<\<newline>    public int z() {\<newline>        return z;\<newline>    }\<newline>    > foo() {\<newline>        return foo;\<newline>    }\<newline>\<newline>    // JavaBean-style getters\<newline>    public A<\<newline>    public int z() {\<newline>        return z;\<newline>    }\<newline>    > getFoo() { return foo; }\<newline>}''
   \<and> find_accessors ''    public A<\<newline>    public int z() {\<newline>        return z;\<newline>    }\<newline>    > foo() {\<newline>        return foo;\<newline>    }\<newline>\<newline>    // JavaBean-style getters\<newline>    public A<\<newline>    public int z() {\<newline>        return z;\<newline>    }\<newline>    > getFoo() { return foo; }\<newline>}''
     = [(''A<\<newline>    public int z() {\<newline>        return z;\<newline>    }\<newline>    >'', ''foo'', ''foo''),
        (''int'', ''z'', ''z'')]
   \<and> getter_line ''A<B'' ''getX'' ''x'' = ''    public A<B getX() { return x; }''
   \<and> find_accessors (''    public A<B getX() { return x; }'' @ ''\<newline>> y() {\<newline> return y;\<newline> }'')
     = [(''A<B getX() { return x; }\<newline>>'', ''y'', ''y'')]"
proof -
  have 1: "find_accessors ''    public A<\<newline>    public int z() {\<newline>        return z;\<newline>    }\<newline>    > foo() {\<newline>        return foo;\<newline>    }\<newline>}''
     = [(''A<\<newline>    public int z() {\<newline>        return z;\<newline>    }\<newline>    >'', ''foo'', ''foo'')]"
    by code_simp
  have 2: "getters [(''A<\<newline>    public int z() {\<newline>        return z;\<newline>    }\<newline>    >'', ''foo'', ''foo'')]
     = Inr [''\<newline>    // JavaBean-style getters'',
            ''    public A<\<newline>    public int z() {\<newline>        return z;\<newline>    }\<newline>    > getFoo() { return foo; }'']"
    by code_simp
  have 3: "find_accessors ''    public A<\<newline>    public int z() {\<newline>        return z;\<newline>    }\<newline>    > getFoo() { return foo; }''
     = [(''int'', ''z'', ''z'')]"
    by code_simp
  have 4: "insert_block ''    public A<\<newline>    public int z() {\<newline>        return z;\<newline>    }\<newline>    > foo() {\<newline>        return foo;\<newline>    }\<newline>}''
        (join ''\<newline>'' [''\<newline>    // JavaBean-style getters'',
            ''    public A<\<newline>    public int z() {\<newline>        return z;\<newline>    }\<newline>    > getFoo() { return foo; }''])
     = Some ''    public A<\<newline>    public int z() {\<newline>        return z;\<newline>    }\<newline>    > foo() {\<newline>        return foo;\<newline>    }\<newline>\<newline>    // JavaBean-style getters\<newline>    public A<\<newline>    public int z() {\<newline>        return z;\<newline>    }\<newline>    > getFoo() { return foo; }\<newline>}''"
    by code_simp
  have 5: "find_accessors ''    public A<\<newline>    public int z() {\<newline>        return z;\<newline>    }\<newline>    > foo() {\<newline>        return foo;\<newline>    }\<newline>\<newline>    // JavaBean-style getters\<newline>    public A<\<newline>    public int z() {\<newline>        return z;\<newline>    }\<newline>    > getFoo() { return foo; }\<newline>}''
     = [(''A<\<newline>    public int z() {\<newline>        return z;\<newline>    }\<newline>    >'', ''foo'', ''foo''),
        (''int'', ''z'', ''z'')]"
    by code_simp
  have 6: "getter_line ''A<B'' ''getX'' ''x'' = ''    public A<B getX() { return x; }''"
    by (simp add: getter_line_def)
  have 7: "find_accessors (''    public A<B getX() { return x; }'' @ ''\<newline>> y() {\<newline> return y;\<newline> }'')
     = [(''A<B getX() { return x; }\<newline>>'', ''y'', ''y'')]"
    by code_simp
  from 1 2 3 4 5 6 7 show ?thesis by blast
qed

subsection \<open>C10\<close>



end
